theory Spec2Isabelle
  imports Complex_Main
begin

section \<open>Strings\<close>

text \<open>
  A JavaScript string is a sequence of UTF-16 code units; \<open>length\<close>, \<open>slice\<close> and the
  regular expressions of the sources (none has the \<open>u\<close> flag) work on code units.  A code
  unit is modelled as a natural number and a string as a list of them; \<open>js ''abc''\<close> is
  the string with the code units of the ASCII literal.
\<close>

type_synonym jsstring = "nat list"

abbreviation (input) js :: "string \<Rightarrow> jsstring" where
  "js s \<equiv> map of_char s"

text \<open>The class \<open>\s\<close> of a JavaScript regular expression (WhiteSpace and LineTerminator).\<close>

definition is_space :: "nat \<Rightarrow> bool" where
  "is_space c \<longleftrightarrow>
     (9 \<le> c \<and> c \<le> 13) \<or> c = 32 \<or> c = 160 \<or> c = 5760 \<or> (8192 \<le> c \<and> c \<le> 8202) \<or>
     c = 8232 \<or> c = 8233 \<or> c = 8239 \<or> c = 8287 \<or> c = 12288 \<or> c = 65279"

text \<open>The class \<open>\d\<close>.\<close>

definition is_digit :: "nat \<Rightarrow> bool" where
  "is_digit c \<longleftrightarrow> 48 \<le> c \<and> c \<le> 57"

text \<open>The class \<open>\w\<close>: \<open>[A-Za-z0-9_]\<close>.\<close>

definition is_word :: "nat \<Rightarrow> bool" where
  "is_word c \<longleftrightarrow> (65 \<le> c \<and> c \<le> 90) \<or> (97 \<le> c \<and> c \<le> 122) \<or> is_digit c \<or> c = 95"

text \<open>The class \<open>.\<close> (no \<open>s\<close> flag): everything but the four line terminators.\<close>

definition is_dot :: "nat \<Rightarrow> bool" where
  "is_dot c \<longleftrightarrow> c \<noteq> 10 \<and> c \<noteq> 13 \<and> c \<noteq> 8232 \<and> c \<noteq> 8233"

text \<open>\<open>s.split('\n')\<close>: the result is never empty, the empty string gives one empty line.\<close>

fun split_lines :: "jsstring \<Rightarrow> jsstring list" where
  "split_lines [] = [[]]"
| "split_lines (c # cs) =
     (if c = 10 then [] # split_lines cs
      else (case split_lines cs of [] \<Rightarrow> [[c]] | l # ls \<Rightarrow> (c # l) # ls))"

text \<open>\<open>lines.join('\n')\<close>.\<close>

fun join_lines :: "jsstring list \<Rightarrow> jsstring" where
  "join_lines [] = []"
| "join_lines [l] = l"
| "join_lines (l # ls) = l @ 10 # join_lines ls"

text \<open>\<open>items.join(sep)\<close> for a separator of one code unit.\<close>

fun join_with :: "nat \<Rightarrow> jsstring list \<Rightarrow> jsstring" where
  "join_with sep [] = []"
| "join_with sep [l] = l"
| "join_with sep (l # ls) = l @ sep # join_with sep ls"

text \<open>\<open>items.join(sep)\<close> for any separator.\<close>

fun join_sep :: "jsstring \<Rightarrow> jsstring list \<Rightarrow> jsstring" where
  "join_sep sep [] = []"
| "join_sep sep [l] = l"
| "join_sep sep (l # ls) = l @ sep @ join_sep sep ls"

text \<open>\<open>s.trimStart()\<close>, \<open>s.trimEnd()\<close>, \<open>s.trim()\<close>: they strip the class \<open>\s\<close>.\<close>

definition trimStart :: "jsstring \<Rightarrow> jsstring" where
  "trimStart s = dropWhile is_space s"

definition trimEnd :: "jsstring \<Rightarrow> jsstring" where
  "trimEnd s = rev (dropWhile is_space (rev s))"

definition trim :: "jsstring \<Rightarrow> jsstring" where
  "trim s = trimEnd (trimStart s)"

text \<open>The decimal numeral that a template literal prints for a non-negative integer.\<close>

function show_nat :: "nat \<Rightarrow> jsstring" where
  "show_nat n = (if n < 10 then [48 + n] else show_nat (n div 10) @ [48 + n mod 10])"
  by pat_completeness auto
termination
  by (relation "measure id") auto

declare show_nat.simps [simp del]

text \<open>\<open>s.startsWith(p)\<close>, used for a literal at the current position of a pattern.\<close>

fun starts_with :: "jsstring \<Rightarrow> jsstring \<Rightarrow> bool" where
  "starts_with [] s \<longleftrightarrow> True"
| "starts_with (p # ps) [] \<longleftrightarrow> False"
| "starts_with (p # ps) (c # cs) \<longleftrightarrow> p = c \<and> starts_with ps cs"

section \<open>The differ (snapshot-differ.js)\<close>

subsection \<open>Element parsing\<close>

text \<open>
  The role alternation of \<open>ELEMENT_RE\<close>, in the order of the source.  Everything after the
  role in \<open>ELEMENT_RE\<close> is optional and the pattern has no end anchor, so the first
  alternative that is a prefix of the rest of the line is the one the match keeps.
\<close>

definition ELEMENT_ROLES :: "jsstring list" where
  "ELEMENT_ROLES = map js
     [''button'', ''link'', ''textbox'', ''checkbox'', ''radio'', ''combobox'', ''listbox'',
      ''menuitem'', ''menuitemcheckbox'', ''menuitemradio'', ''option'', ''searchbox'',
      ''slider'', ''spinbutton'', ''switch'', ''tab'', ''treeitem'', ''heading'', ''cell'',
      ''gridcell'', ''columnheader'', ''rowheader'', ''listitem'', ''article'', ''region'',
      ''main'', ''navigation'', ''dialog'', ''document'', ''group'', ''list'', ''table'',
      ''row'', ''generic'', ''text'', ''strong'', ''emphasis'', ''mark'']"

definition match_role :: "jsstring \<Rightarrow> jsstring option" where
  "match_role s = find (\<lambda>r. starts_with r s) ELEMENT_ROLES"

text \<open>
  \<open>(?:[^"\\]|\\.)*"\<close> after the opening quote: the body of the quoted name and the rest of
  the line after the closing quote.  The two alternatives start with different code units
  and neither can start with a quote, so giving iterations back never helps: the group
  matches iff this scan reaches a closing quote.
\<close>

fun quoted_body :: "jsstring \<Rightarrow> (jsstring \<times> jsstring) option" where
  "quoted_body [] = None"
| "quoted_body (c # cs) =
     (if c = 34 then Some ([], cs)
      else if c = 92 then
        (case cs of
           [] \<Rightarrow> None
         | d # ds \<Rightarrow>
             if is_dot d then map_option (\<lambda>(b, r). (c # d # b, r)) (quoted_body ds) else None)
      else map_option (\<lambda>(b, r). (c # b, r)) (quoted_body cs))"

text \<open>\<open>("(?:[^"\\]|\\.)*")?\<close> at the current position.\<close>

definition quoted_name :: "jsstring \<Rightarrow> (jsstring \<times> jsstring) option" where
  "quoted_name s = (case s of c # cs \<Rightarrow> if c = 34 then quoted_body cs else None | [] \<Rightarrow> None)"

text \<open>\<open>\[ref=(e\d+)\]\<close> at the current position: the reference and the rest.\<close>

definition ref_tag :: "jsstring \<Rightarrow> (jsstring \<times> jsstring) option" where
  "ref_tag s =
     (if starts_with (js ''[ref=e'') s then
        (let ds = takeWhile is_digit (drop 6 s); r = dropWhile is_digit (drop 6 s)
         in if ds \<noteq> [] \<and> starts_with (js '']'') r then Some (101 # ds, drop 1 r) else None)
      else None)"

record element =
  role :: jsstring
  name :: jsstring
  ref :: "jsstring option"
  display :: jsstring
  indent :: nat

text \<open>One line against \<open>ELEMENT_RE\<close>; \<open>None\<close> when the line does not match.\<close>

definition parseElement :: "jsstring \<Rightarrow> element option" where
  "parseElement line =
     (let ind = takeWhile is_space line in
      case dropWhile is_space line of
        [] \<Rightarrow> None
      | c # r1 \<Rightarrow>
          if c \<noteq> 45 then None
          else
            (let r2 = dropWhile is_space r1 in
             case match_role r2 of
               None \<Rightarrow> None
             | Some rl \<Rightarrow>
                 (let r3 = dropWhile is_space (drop (length rl) r2);
                      (nm, r4) = (case quoted_name r3 of
                                    Some (b, r) \<Rightarrow> (b, r)
                                  | None \<Rightarrow> ([], r3));
                      r5 = dropWhile is_space r4;
                      rf = map_option fst (ref_tag r5);
                      disp = (case trimStart line of
                                d # ds \<Rightarrow> if d = 45 then dropWhile is_space ds else d # ds
                              | [] \<Rightarrow> [])
                  in Some \<lparr>role = rl, name = nm, ref = rf, display = disp,
                            indent = length ind\<rparr>)))"

definition parseElements :: "jsstring \<Rightarrow> element list" where
  "parseElements snapshot =
     (if snapshot = [] then []
      else List.map_filter parseElement (split_lines snapshot))"

subsection \<open>Page context\<close>

text \<open>
  \<open>/^-\s*heading\s+"([^"]*)"/\<close> on a line that has been \<open>trimStart\<close>ed: the captured
  name.  \<open>\s+\<close> takes all the white space and the next code unit must be the quote.
\<close>

definition heading_name :: "jsstring \<Rightarrow> jsstring option" where
  "heading_name t =
     (case t of
        [] \<Rightarrow> None
      | c # r1 \<Rightarrow>
          if c \<noteq> 45 then None
          else
            (let r2 = dropWhile is_space r1 in
             if \<not> starts_with (js ''heading'') r2 then None
             else
               (let r3 = drop 7 r2; r4 = dropWhile is_space r3 in
                if takeWhile is_space r3 = [] then None
                else
                  (case r4 of
                     [] \<Rightarrow> None
                   | q # r5 \<Rightarrow>
                       if q = 34 \<and> dropWhile (\<lambda>x. x \<noteq> 34) r5 \<noteq> []
                       then Some (takeWhile (\<lambda>x. x \<noteq> 34) r5)
                       else None))))"

text \<open>
  \<open>extractContext(snapshot).title\<close>: the loop overwrites the title as long as it is
  falsy, that is \<open>null\<close> or the empty string.  (The landmarks that \<open>extractContext\<close>
  also collects are not read by \<open>computeDiff\<close>.)
\<close>

definition extractTitle :: "jsstring \<Rightarrow> jsstring option" where
  "extractTitle snapshot =
     foldl (\<lambda>title line.
              if title = None \<or> title = Some [] then
                (case heading_name (trimStart line) of Some n \<Rightarrow> Some n | None \<Rightarrow> title)
              else title)
       None (split_lines snapshot)"

subsection \<open>computeDiff\<close>

text \<open>The lookup tables: by reference the last element wins, by role and name the first.\<close>

definition roleNameKey :: "element \<Rightarrow> jsstring" where
  "roleNameKey el = role el @ js ''::'' @ name el"

definition byRef :: "element list \<Rightarrow> (jsstring \<rightharpoonup> element)" where
  "byRef els = foldl (\<lambda>m el. case ref el of Some r \<Rightarrow> m(r \<mapsto> el) | None \<Rightarrow> m) Map.empty els"

definition byRoleName :: "element list \<Rightarrow> (jsstring \<rightharpoonup> element)" where
  "byRoleName els =
     foldl (\<lambda>m el. if m (roleNameKey el) = None then m(roleNameKey el \<mapsto> el) else m)
       Map.empty els"

record match_state =
  added :: "element list"
  changed :: "(element \<times> element) list"
  unchanged :: nat
  matchedPrevKeys :: "jsstring set"

text \<open>
  The previous element a current element is matched with, and the key that is recorded:
  the reference first, role and name as the fallback.
\<close>

definition findPrev ::
  "(jsstring \<rightharpoonup> element) \<Rightarrow> (jsstring \<rightharpoonup> element) \<Rightarrow> element \<Rightarrow> (element \<times> jsstring) option"
where
  "findPrev prevByRef prevByRoleName el =
     (case (case ref el of
              Some r \<Rightarrow> (case prevByRef r of
                           Some p \<Rightarrow> Some (p, js ''ref:'' @ r)
                         | None \<Rightarrow> None)
            | None \<Rightarrow> None) of
        Some h \<Rightarrow> Some h
      | None \<Rightarrow>
          (case prevByRoleName (roleNameKey el) of
             Some p \<Rightarrow> Some (p, js ''rn:'' @ roleNameKey el)
           | None \<Rightarrow> None))"

text \<open>The body of the loop over the current elements.\<close>

definition matchStep ::
  "(jsstring \<rightharpoonup> element) \<Rightarrow> (jsstring \<rightharpoonup> element) \<Rightarrow> match_state \<Rightarrow> element \<Rightarrow> match_state"
where
  "matchStep prevByRef prevByRoleName st el =
     (case findPrev prevByRef prevByRoleName el of
        Some (prevEl, matchKey) \<Rightarrow>
          (let st' = st\<lparr>matchedPrevKeys := insert matchKey (matchedPrevKeys st)\<rparr> in
           if ref el \<noteq> None \<and> ref prevEl = ref el \<and> name el \<noteq> name prevEl
           then st'\<lparr>changed := changed st' @ [(el, prevEl)]\<rparr>
           else st'\<lparr>unchanged := Suc (unchanged st')\<rparr>)
      | None \<Rightarrow> st\<lparr>added := added st @ [el]\<rparr>)"

text \<open>The test of the loop over the previous elements: was the element matched?\<close>

definition isMatched :: "jsstring set \<Rightarrow> element \<Rightarrow> bool" where
  "isMatched keys el \<longleftrightarrow>
     (case ref el of Some r \<Rightarrow> js ''ref:'' @ r \<in> keys | None \<Rightarrow> False) \<or>
     js ''rn:'' @ roleNameKey el \<in> keys"

definition NOISE_ROLES :: "jsstring list" where
  "NOISE_ROLES = map js
     [''generic'', ''group'', ''list'', ''table'', ''row'', ''document'', ''text'', ''strong'',
      ''emphasis'', ''mark'']"

definition filterNoise :: "element \<Rightarrow> bool" where
  "filterNoise el \<longleftrightarrow> role el \<notin> set NOISE_ROLES"

text \<open>The lines of the diff text for one addition or removal, and for one change.\<close>

definition renderElement :: "jsstring \<Rightarrow> element \<Rightarrow> jsstring" where
  "renderElement sign el =
     sign @ js '' '' @ role el @
     (if name el \<noteq> [] then js '' '' @ [34] @ name el @ [34] else []) @
     (case ref el of Some r \<Rightarrow> js '' [ref='' @ r @ js '']'' | None \<Rightarrow> [])"

definition renderChange :: "element \<times> element \<Rightarrow> jsstring" where
  "renderChange ch =
     (case ch of (el, prevEl) \<Rightarrow>
        js ''~ '' @ role el @
        (case ref el of Some r \<Rightarrow> js '' [ref='' @ r @ js '']'' | None \<Rightarrow> []) @
        js '': '' @ [34] @ name prevEl @ [34] @ [32, 8594, 32] @ [34] @ name el @ [34])"

text \<open>
  \<open>diffRatio\<close> is a quotient of two array lengths and is compared with \<open>0.7\<close>.  It is
  modelled as a rational number: for lengths below \<open>2^53\<close> the double nearest to
  \<open>c / t\<close> exceeds the double nearest to \<open>7/10\<close> exactly when \<open>c / t > 7/10\<close>, because
  rounding is monotone and two distinct fractions with denominators \<open>t\<close> and \<open>10\<close> are
  more than one unit in the last place apart.
\<close>

record diff_stats =
  stat_added :: nat
  stat_removed :: nat
  stat_changed :: nat
  stat_unchanged :: nat
  stat_total :: nat
  diffRatio :: rat

record diff_result =
  diff :: jsstring
  stats :: diff_stats
  isLargeDiff :: bool
  isEmpty :: bool

definition computeDiff :: "jsstring \<Rightarrow> jsstring \<Rightarrow> jsstring \<Rightarrow> jsstring \<Rightarrow> diff_result" where
  "computeDiff prevSnapshot currSnapshot prevUrl currUrl =
     (let prev = parseElements prevSnapshot;
          curr = parseElements currSnapshot;
          prevByRef = byRef prev;
          prevByRoleName = byRoleName prev;
          st = foldl (matchStep prevByRef prevByRoleName)
                 \<lparr>added = [], changed = [], unchanged = 0, matchedPrevKeys = {}\<rparr> curr;
          removed = filter (\<lambda>el. \<not> isMatched (matchedPrevKeys st) el) prev;
          filteredAdded = filter filterNoise (added st);
          filteredRemoved = filter filterNoise removed;
          lines =
            [js ''URL: '' @ currUrl] @
            (if prevUrl \<noteq> [] \<and> currUrl \<noteq> prevUrl then [js ''CHANGED from '' @ prevUrl] else []) @
            (case extractTitle currSnapshot of
               Some t \<Rightarrow> if t \<noteq> [] then [js ''Title: '' @ t] else []
             | None \<Rightarrow> []) @
            [[]] @
            map (renderElement (js ''+'')) filteredAdded @
            map (renderElement (js ''-'')) filteredRemoved @
            map renderChange (changed st) @
            (if unchanged st > 0
             then [js ''= '' @ show_nat (unchanged st) @ js '' unchanged elements (not shown)'']
             else []);
          totalElements = length curr;
          changedElements = length filteredAdded + length filteredRemoved + length (changed st);
          ratio = (if totalElements > 0 then of_nat changedElements / of_nat totalElements else 1)
      in \<lparr>diff = join_lines lines,
          stats = \<lparr>stat_added = length filteredAdded, stat_removed = length filteredRemoved,
                   stat_changed = length (changed st), stat_unchanged = unchanged st,
                   stat_total = totalElements, diffRatio = ratio\<rparr>,
          isLargeDiff = (ratio > 7 / 10),
          isEmpty = (changedElements = 0)\<rparr>)"

subsection \<open>Outlines whose references identify their elements\<close>

text \<open>
  Two parsed elements that carry the same reference carry the same name.  Outlines in
  which every reference occurs once, as the outline builder numbers them, are of this kind.
\<close>

definition refs_agree :: "element list \<Rightarrow> bool" where
  "refs_agree els \<longleftrightarrow>
     (\<forall>a \<in> set els. \<forall>b \<in> set els. ref a \<noteq> None \<and> ref a = ref b \<longrightarrow> name a = name b)"

subsection \<open>The counts of a diff, in the words of the specification\<close>










section \<open>The reducers (snapshot-optimizer.js)\<close>

subsection \<open>Role sets\<close>

definition INTERACTIVE_ROLES :: "jsstring list" where
  "INTERACTIVE_ROLES = map js
     [''button'', ''link'', ''textbox'', ''checkbox'', ''radio'', ''combobox'', ''listbox'',
      ''menuitem'', ''menuitemcheckbox'', ''menuitemradio'', ''option'', ''searchbox'',
      ''slider'', ''spinbutton'', ''switch'', ''tab'', ''treeitem'']"

definition is_interactive :: "jsstring \<Rightarrow> bool" where
  "is_interactive r \<longleftrightarrow> r \<in> set INTERACTIVE_ROLES"

subsection \<open>Helpers\<close>

text \<open>
  \<open>toLowerCase\<close> and \<open>toUpperCase\<close>.  On a string of ASCII code units the two
  functions map the letters \<open>A\<close> to \<open>Z\<close> and \<open>a\<close> to \<open>z\<close> code unit by code unit and
  leave every other code unit as it is.  On any other string they follow the Unicode case
  tables of the platform, which are not part of this repository (and may change the length
  of the string): the model takes the platform's two functions as the parameters \<open>lower\<close>
  and \<open>upper\<close> and applies them to exactly the strings that hold a code unit above
  \<open>U+007F\<close>.
\<close>

definition lower_unit :: "nat \<Rightarrow> nat" where
  "lower_unit c = (if 65 \<le> c \<and> c \<le> 90 then c + 32 else c)"

definition upper_unit :: "nat \<Rightarrow> nat" where
  "upper_unit c = (if 97 \<le> c \<and> c \<le> 122 then c - 32 else c)"

definition lower_ascii :: "jsstring \<Rightarrow> jsstring" where
  "lower_ascii s = map lower_unit s"

definition upper_ascii :: "jsstring \<Rightarrow> jsstring" where
  "upper_ascii s = map upper_unit s"

definition is_ascii :: "jsstring \<Rightarrow> bool" where
  "is_ascii s \<longleftrightarrow> list_all (\<lambda>c. c < 128) s"

definition toLowerCase :: "(jsstring \<Rightarrow> jsstring) \<Rightarrow> jsstring \<Rightarrow> jsstring" where
  "toLowerCase lower s = (if is_ascii s then lower_ascii s else lower s)"

definition toUpperCase :: "(jsstring \<Rightarrow> jsstring) \<Rightarrow> jsstring \<Rightarrow> jsstring" where
  "toUpperCase upper s = (if is_ascii s then upper_ascii s else upper s)"

text \<open>\<open>s.includes(p)\<close>.\<close>

fun str_includes :: "jsstring \<Rightarrow> jsstring \<Rightarrow> bool" where
  "str_includes [] p \<longleftrightarrow> p = []"
| "str_includes (c # cs) p \<longleftrightarrow> starts_with p (c # cs) \<or> str_includes cs p"

text \<open>\<open>indentLevel\<close>: half the length of the leading white space, rounded down.\<close>

definition indentLevel :: "jsstring \<Rightarrow> nat" where
  "indentLevel line = length (takeWhile is_space line) div 2"

text \<open>
  \<open>REF_PATTERN\<close>, the first match of \<open>\[ref=(e\d+)\]\<close> in a string, and
  \<open>REF_PATTERN_GLOBAL\<close>, all its matches from left to right, each search resuming after
  the previous match.
\<close>

fun first_ref :: "jsstring \<Rightarrow> jsstring option" where
  "first_ref [] = None"
| "first_ref (c # cs) =
     (case ref_tag (c # cs) of Some (r, rest) \<Rightarrow> Some r | None \<Rightarrow> first_ref cs)"

definition has_ref :: "jsstring \<Rightarrow> bool" where
  "has_ref line \<longleftrightarrow> first_ref line \<noteq> None"

function all_refs :: "jsstring \<Rightarrow> jsstring list" where
  "all_refs [] = []"
| "all_refs (c # cs) =
     (case ref_tag (c # cs) of Some (r, rest) \<Rightarrow> r # all_refs rest | None \<Rightarrow> all_refs cs)"
  by pat_completeness auto
termination
proof (relation "measure length", goal_cases)
  case 1
  show ?case by simp
next
  case (2 c cs)
  show ?case by simp
next
  case (3 c cs x r rest)
  then have "rest = drop 1 (dropWhile is_digit (drop 6 (c # cs)))"
    by (auto simp add: ref_tag_def Let_def split: if_splits)
  moreover have "length (dropWhile is_digit (drop 6 (c # cs))) \<le> length (drop 6 (c # cs))"
    by (rule length_dropWhile_le)
  ultimately show ?case by simp
qed

text \<open>\<open>collectRefs(lines)\<close>.\<close>

definition collectRefs :: "jsstring list \<Rightarrow> jsstring list" where
  "collectRefs lines = concat (map all_refs lines)"

text \<open>
  \<open>parseLine\<close>: the line against \<open>/^(\s*-\s*)(\w+)(?:\s+"([^"]*)")?(.*)$/\<close>.

  Every quantifier of the pattern is followed by something its class excludes (\<open>\s*\<close> by
  the dash or a word character, \<open>\w+\<close> and the name group by the rest of the line), so the
  greedy choices are the only ones that can lead to a match, with one exception that
  changes nothing: when \<open>(.*)$\<close> fails after the name group has matched, the engine
  retries without the group and with shorter roles, but then \<open>(.*)\<close> has to cover a
  longer rest, which contains the same line terminator, and fails again.

  The role is a match of \<open>\w+\<close>, a string of ASCII letters, digits and underscores, so
  its \<open>toLowerCase()\<close> is \<open>lower_ascii\<close> on every platform.
\<close>

record parsed =
  prefix :: jsstring
  role_of :: jsstring
  name_of :: "jsstring option"
  suffix :: jsstring
  ref_of :: "jsstring option"
  raw :: jsstring

text \<open>\<open>(?:\s+"([^"]*)")\<close> at the current position: the name and the rest after it.\<close>

definition name_group :: "jsstring \<Rightarrow> (jsstring \<times> jsstring) option" where
  "name_group s =
     (if takeWhile is_space s = [] then None
      else
        (case dropWhile is_space s of
           [] \<Rightarrow> None
         | q # r \<Rightarrow>
             if q = 34 \<and> dropWhile (\<lambda>x. x \<noteq> 34) r \<noteq> []
             then Some (takeWhile (\<lambda>x. x \<noteq> 34) r, tl (dropWhile (\<lambda>x. x \<noteq> 34) r))
             else None))"

definition parseLine :: "jsstring \<Rightarrow> parsed option" where
  "parseLine line =
     (case dropWhile is_space line of
        [] \<Rightarrow> None
      | d # r1 \<Rightarrow>
          if d \<noteq> 45 then None
          else
            (let r2 = dropWhile is_space r1;
                 w = takeWhile is_word r2;
                 r3 = dropWhile is_word r2;
                 pre = takeWhile is_space line @ 45 # takeWhile is_space r1;
                 (nm, sfx) = (case name_group r3 of
                                Some (n, rest) \<Rightarrow> (Some n, rest)
                              | None \<Rightarrow> (None, r3))
             in if w = [] \<or> \<not> list_all is_dot sfx then None
                else Some \<lparr>prefix = pre, role_of = lower_ascii w, name_of = nm, suffix = sfx,
                           ref_of = first_ref sfx, raw = line\<rparr>))"

text \<open>A name is truthy when it is present and not the empty string.\<close>

definition truthy :: "jsstring option \<Rightarrow> bool" where
  "truthy n \<longleftrightarrow> n \<noteq> None \<and> n \<noteq> Some []"

text \<open>\<open>getSubtreeEnd\<close>, on the lines after the start line: the lines of the subtree are
  the following lines that are indented deeper, up to the first that is not.\<close>

definition subtree :: "nat \<Rightarrow> jsstring list \<Rightarrow> jsstring list" where
  "subtree startIndent rest = takeWhile (\<lambda>l. indentLevel l > startIndent) rest"

definition after_subtree :: "nat \<Rightarrow> jsstring list \<Rightarrow> jsstring list" where
  "after_subtree startIndent rest = dropWhile (\<lambda>l. indentLevel l > startIndent) rest"

text \<open>\<open>buildLine\<close>.\<close>

definition buildLine :: "jsstring \<Rightarrow> jsstring \<Rightarrow> jsstring option \<Rightarrow> jsstring \<Rightarrow> jsstring" where
  "buildLine pre rl nm sfx =
     pre @ rl @ (case nm of Some n \<Rightarrow> 32 # 34 # n @ [34] | None \<Rightarrow> []) @ sfx"

subsection \<open>Backtracking patterns\<close>

text \<open>
  The patterns of \<open>semanticCompress\<close>, \<open>compressFlightName\<close> and \<open>airportCode\<close> need
  backtracking (lazy quantifiers, optional parts followed by classes that overlap them),
  so they are run by a small backtracking matcher that follows the ECMAScript rules for
  the constructs these patterns use.  In all of them a starred item is a single class,
  which is what \<open>Star\<close> and \<open>StarLazy\<close> take.

  A matcher state is the code unit before the current position (for \<open>\b\<close>), the rest of
  the input and the captures so far.  \<open>rx_match r s\<close> lists the states after every way
  \<open>r\<close> can match at \<open>s\<close>, in the order in which a backtracking engine tries them; the
  head of the list is the match the engine reports.
\<close>

datatype rx =
    Cls "nat \<Rightarrow> bool"
  | Eps
  | Seq rx rx
  | Alt rx rx
  | Star "nat \<Rightarrow> bool"
  | StarLazy "nat \<Rightarrow> bool"
  | Grp nat rx
  | Bnd

type_synonym mstate = "nat option \<times> jsstring \<times> (nat \<times> jsstring) list"

text \<open>Greedy \<open>c*\<close>: the longest run first, then each shorter one.\<close>

fun star_greedy :: "(nat \<Rightarrow> bool) \<Rightarrow> nat option \<Rightarrow> jsstring \<Rightarrow> (nat \<times> jsstring) list
    \<Rightarrow> mstate list" where
  "star_greedy p prev [] caps = [(prev, [], caps)]"
| "star_greedy p prev (c # cs) caps =
     (if p c then star_greedy p (Some c) cs caps @ [(prev, c # cs, caps)]
      else [(prev, c # cs, caps)])"

text \<open>Lazy \<open>c*?\<close>: the empty run first, then each longer one.\<close>

fun star_lazy :: "(nat \<Rightarrow> bool) \<Rightarrow> nat option \<Rightarrow> jsstring \<Rightarrow> (nat \<times> jsstring) list
    \<Rightarrow> mstate list" where
  "star_lazy p prev [] caps = [(prev, [], caps)]"
| "star_lazy p prev (c # cs) caps =
     (if p c then (prev, c # cs, caps) # star_lazy p (Some c) cs caps
      else [(prev, c # cs, caps)])"

text \<open>\<open>\b\<close>: exactly one of the code units around the position is a word character.\<close>

definition at_boundary :: "nat option \<Rightarrow> jsstring \<Rightarrow> bool" where
  "at_boundary prev rest \<longleftrightarrow>
     (case prev of Some a \<Rightarrow> is_word a | None \<Rightarrow> False) \<noteq>
     (case rest of c # cs \<Rightarrow> is_word c | [] \<Rightarrow> False)"

primrec rx_match :: "rx \<Rightarrow> mstate \<Rightarrow> mstate list" where
  "rx_match (Cls p) s =
     (case s of (prev, rest, caps) \<Rightarrow>
        (case rest of [] \<Rightarrow> [] | c # cs \<Rightarrow> if p c then [(Some c, cs, caps)] else []))"
| "rx_match Eps s = [s]"
| "rx_match (Seq a b) s = concat (map (rx_match b) (rx_match a s))"
| "rx_match (Alt a b) s = rx_match a s @ rx_match b s"
| "rx_match (Star p) s = (case s of (prev, rest, caps) \<Rightarrow> star_greedy p prev rest caps)"
| "rx_match (StarLazy p) s = (case s of (prev, rest, caps) \<Rightarrow> star_lazy p prev rest caps)"
| "rx_match (Grp n a) s =
     (case s of (prev, rest, caps) \<Rightarrow>
        map (\<lambda>t. case t of (prev', rest', caps') \<Rightarrow>
               (prev', rest', (n, take (length rest - length rest') rest) # caps'))
          (rx_match a s))"
| "rx_match Bnd s = (case s of (prev, rest, caps) \<Rightarrow> if at_boundary prev rest then [s] else [])"

text \<open>
  Matching under the \<open>i\<close> flag compares canonical forms: a code unit is canonicalised to
  its upper case unless that would turn a non-ASCII unit into an ASCII one.  All letters
  in the patterns are ASCII, so only their two ASCII cases match them.
\<close>

definition ci_fold :: "nat \<Rightarrow> nat" where
  "ci_fold c = (if 97 \<le> c \<and> c \<le> 122 then c - 32 else c)"

definition chr :: "char \<Rightarrow> rx" where
  "chr c = Cls (\<lambda>x. x = of_char c)"

definition chr_i :: "char \<Rightarrow> rx" where
  "chr_i c = Cls (\<lambda>x. ci_fold x = ci_fold (of_char c))"

definition seqs :: "rx list \<Rightarrow> rx" where
  "seqs rs = foldr Seq rs Eps"

definition lit_i :: "string \<Rightarrow> rx" where
  "lit_i s = seqs (map chr_i s)"

definition opt :: "rx \<Rightarrow> rx" where
  "opt r = Alt r Eps"

definition plus :: "(nat \<Rightarrow> bool) \<Rightarrow> rx" where
  "plus p = Seq (Cls p) (Star p)"

definition plus_lazy :: "(nat \<Rightarrow> bool) \<Rightarrow> rx" where
  "plus_lazy p = Seq (Cls p) (StarLazy p)"

text \<open>The value of capture \<open>n\<close> of a match: \<open>None\<close> is \<open>undefined\<close>.\<close>

definition capture :: "(nat \<times> jsstring) list \<Rightarrow> nat \<Rightarrow> jsstring option" where
  "capture caps n = map_of caps n"

text \<open>
  \<open>s.match(r)\<close> for a pattern without the \<open>g\<close> flag: the first position, from the left,
  at which the pattern matches, and the captures of the match there.
\<close>

fun rx_search :: "rx \<Rightarrow> nat option \<Rightarrow> jsstring \<Rightarrow> (nat \<times> jsstring) list option" where
  "rx_search r prev [] =
     (case rx_match r (prev, [], []) of [] \<Rightarrow> None | (p', r', caps) # ts \<Rightarrow> Some caps)"
| "rx_search r prev (c # cs) =
     (case rx_match r (prev, c # cs, []) of
        [] \<Rightarrow> rx_search r (Some c) cs
      | (p', r', caps) # ts \<Rightarrow> Some caps)"

definition rx_exec :: "rx \<Rightarrow> jsstring \<Rightarrow> (nat \<times> jsstring) list option" where
  "rx_exec r s = rx_search r None s"

text \<open>
  \<open>s.replace(r, f)\<close> for a pattern with the \<open>g\<close> flag: every match, from left to right,
  is replaced by \<open>f\<close> of the matched text and the captures; the search resumes after the
  match, one code unit further when the match is empty.
\<close>

function rx_replace ::
  "rx \<Rightarrow> (jsstring \<Rightarrow> (nat \<times> jsstring) list \<Rightarrow> jsstring) \<Rightarrow> nat option \<Rightarrow> jsstring \<Rightarrow> jsstring"
where
  "rx_replace r f prev rest =
     (case rx_match r (prev, rest, []) of
        [] \<Rightarrow> (case rest of [] \<Rightarrow> [] | c # cs \<Rightarrow> c # rx_replace r f (Some c) cs)
      | (prev', rest', caps) # ts \<Rightarrow>
          if length rest' < length rest
          then f (take (length rest - length rest') rest) caps @ rx_replace r f prev' rest'
          else f [] caps @ (case rest of [] \<Rightarrow> [] | c # cs \<Rightarrow> c # rx_replace r f (Some c) cs))"
  by pat_completeness auto
termination
  by (relation "measure (\<lambda>(r, f, prev, rest). length rest)") auto

declare rx_replace.simps [simp del]

definition replaceAll ::
  "rx \<Rightarrow> (jsstring \<Rightarrow> (nat \<times> jsstring) list \<Rightarrow> jsstring) \<Rightarrow> jsstring \<Rightarrow> jsstring" where
  "replaceAll r f s = rx_replace r f None s"

subsection \<open>Strip chrome\<close>

text \<open>\<open>/skip to|cookie|privacy|terms of service/i.test(name)\<close>.\<close>

definition chrome_name :: "jsstring \<Rightarrow> bool" where
  "chrome_name n \<longleftrightarrow>
     (\<exists>w \<in> set [''skip to'', ''cookie'', ''privacy'', ''terms of service''].
        str_includes (map ci_fold n) (map ci_fold (js w)))"

text \<open>\<open>/^Advertisement|^Promoted|^Sponsored/i.test(name)\<close>.\<close>

definition ad_name :: "jsstring \<Rightarrow> bool" where
  "ad_name n \<longleftrightarrow>
     (\<exists>w \<in> set [''Advertisement'', ''Promoted'', ''Sponsored''].
        starts_with (map ci_fold (js w)) (map ci_fold n))"

text \<open>\<open>isChromeLine(parsed, lines, idx)\<close>; the only line it reads is \<open>lines[idx]\<close>.\<close>

definition isChromeLine :: "parsed \<Rightarrow> jsstring \<Rightarrow> bool" where
  "isChromeLine p line \<longleftrightarrow>
     role_of p = js ''banner'' \<or> role_of p = js ''contentinfo'' \<or>
     (role_of p = js ''navigation'' \<and> indentLevel line \<le> 1) \<or>
     (case name_of p of
        Some n \<Rightarrow> n \<noteq> [] \<and> ((chrome_name n \<and> indentLevel line \<le> 1) \<or> ad_name n)
      | None \<Rightarrow> False)"

text \<open>An interactive reference rescued from a chrome subtree: reference, role and name.\<close>

type_synonym chrome_ref = "jsstring \<times> jsstring \<times> jsstring option"

text \<open>The entry pushed for a line of a chrome subtree, if it is pushed.\<close>

definition rescue :: "jsstring \<Rightarrow> chrome_ref list" where
  "rescue line =
     (case parseLine line of
        Some p \<Rightarrow>
          (case ref_of p of
             Some r \<Rightarrow> if is_interactive (role_of p) then [(r, role_of p, name_of p)] else []
           | None \<Rightarrow> [])
      | None \<Rightarrow> [])"

text \<open>
  The loop of \<open>stripChrome\<close> over the remaining lines.  \<open>skipUntilIndent\<close> is \<open>None\<close> for
  the \<open>-1\<close> of the source.
\<close>

fun stripChrome_loop ::
  "nat option \<Rightarrow> jsstring list \<Rightarrow> chrome_ref list \<Rightarrow> jsstring list
     \<Rightarrow> jsstring list \<times> chrome_ref list" where
  "stripChrome_loop skipUntilIndent result chromeRefs [] = (result, chromeRefs)"
| "stripChrome_loop skipUntilIndent result chromeRefs (line # rest) =
     (if (case skipUntilIndent of Some k \<Rightarrow> indentLevel line > k | None \<Rightarrow> False)
      then stripChrome_loop skipUntilIndent result (chromeRefs @ rescue line) rest
      else
        (case parseLine line of
           Some p \<Rightarrow>
             if isChromeLine p line
             then stripChrome_loop (Some (indentLevel line)) result (chromeRefs @ rescue line) rest
             else stripChrome_loop None (result @ [line]) chromeRefs rest
         | None \<Rightarrow> stripChrome_loop None (result @ [line]) chromeRefs rest))"

definition chromeLine :: "chrome_ref \<Rightarrow> jsstring" where
  "chromeLine r =
     (case r of (rf, rl, nm) \<Rightarrow>
        js ''  - '' @ rl @
        (case nm of Some n \<Rightarrow> if n \<noteq> [] then 32 # 34 # n @ [34] else [] | None \<Rightarrow> []) @
        js '' [ref='' @ rf @ js '']'')"

definition stripChrome :: "jsstring \<Rightarrow> jsstring" where
  "stripChrome snapshot =
     (case stripChrome_loop None [] [] (split_lines snapshot) of
        (result, chromeRefs) \<Rightarrow>
          join_lines
            (if chromeRefs \<noteq> []
             then result @ [js ''- group '' @ 34 # js ''chrome-actions'' @ [34]] @ map chromeLine chromeRefs
             else result))"

subsection \<open>Dedup links\<close>

text \<open>
  The loop of \<open>dedupLinks\<close> over the remaining lines.  The scope stack has its top at
  the head; a scope is the indent of its article and the link names seen in it.  Where
  the source sets \<open>i = end - 1\<close>, the loop goes on after the subtree.
\<close>

function dedupLinks_loop ::
  "(nat \<times> jsstring list) list \<Rightarrow> jsstring list \<Rightarrow> jsstring list \<Rightarrow> jsstring list" where
  "dedupLinks_loop scopeStack result [] = result"
| "dedupLinks_loop scopeStack result (line # rest) =
     (let indent = indentLevel line;
          p = parseLine line;
          stack = dropWhile (\<lambda>sc. indent \<le> fst sc) scopeStack;
          rl = map_option role_of p;
          nm = (case p of Some q \<Rightarrow> name_of q | None \<Rightarrow> None)
      in
        if rl = Some (js ''article'')
        then dedupLinks_loop ((indent, []) # stack) (result @ [line]) rest
        else
          (case (if rl = Some (js ''link'') \<and> truthy nm then nm else None, stack) of
             (Some n, (si, seen) # scopes) \<Rightarrow>
               if n \<in> set seen
               then dedupLinks_loop stack result (after_subtree indent rest)
               else dedupLinks_loop ((si, n # seen) # scopes) (result @ [line]) rest
           | _ \<Rightarrow>
               if rl = Some (js ''img'') \<and> \<not> truthy nm
               then dedupLinks_loop stack result rest
               else dedupLinks_loop stack (result @ [line]) rest))"
  by pat_completeness auto
termination
  by (relation "measure (\<lambda>(s, r, ls). length ls)")
     (auto simp add: after_subtree_def less_Suc_eq_le length_dropWhile_le)

declare dedupLinks_loop.simps [simp del]

definition dedupLinks :: "jsstring \<Rightarrow> jsstring" where
  "dedupLinks snapshot = join_lines (dedupLinks_loop [] [] (split_lines snapshot))"

subsection \<open>Prune attributes\<close>

text \<open>\<open>/^\s*- \/url:/.test(line)\<close> and the two like it in \<open>removeNoise\<close>.\<close>

definition starts_after_space :: "jsstring \<Rightarrow> jsstring \<Rightarrow> bool" where
  "starts_after_space w line \<longleftrightarrow> starts_with w (dropWhile is_space line)"

text \<open>
  The first replacement of \<open>pruneAttributes\<close>: every match of \<open>REF_PATTERN_GLOBAL\<close>
  becomes \<open>__REF_k__\<close>, where \<open>k\<close> counts the matches from 0; the matched tags are
  collected in \<open>refs\<close>.
\<close>

function protect_refs :: "jsstring list \<Rightarrow> jsstring \<Rightarrow> jsstring \<times> jsstring list" where
  "protect_refs refs [] = ([], refs)"
| "protect_refs refs (c # cs) =
     (case ref_tag (c # cs) of
        Some (r, rest) \<Rightarrow>
          (case protect_refs (refs @ [js ''[ref='' @ r @ js '']'']) rest of
             (out, refs') \<Rightarrow> (js ''__REF_'' @ show_nat (length refs) @ js ''__'' @ out, refs'))
      | None \<Rightarrow> (case protect_refs refs cs of (out, refs') \<Rightarrow> (c # out, refs')))"
  by pat_completeness auto
termination
proof (relation "measure (\<lambda>(refs, s). length s)", goal_cases)
  case 1
  show ?case by simp
next
  case (2 refs c cs)
  show ?case by simp
next
  case (3 refs c cs x r rest)
  then have "rest = drop 1 (dropWhile is_digit (drop 6 (c # cs)))"
    by (auto simp add: ref_tag_def Let_def split: if_splits)
  moreover have "length (dropWhile is_digit (drop 6 (c # cs))) \<le> length (drop 6 (c # cs))"
    by (rule length_dropWhile_le)
  ultimately show ?case by simp
qed

text \<open>
  \<open>/ "(https?:\/\/[^"]+)"/g\<close> with the callback that shortens a URL to host and path.
  \<open>new URL(url)\<close> belongs to the platform, not to this repository: the model takes
  \<open>hostPath\<close>, which gives \<open>u.hostname + u.pathname\<close> for a string that \<open>new URL\<close> accepts
  and \<open>None\<close> where it throws, as a parameter.
\<close>

definition url_rx :: rx where
  "url_rx = seqs [chr CHR '' '', Cls (\<lambda>c. c = 34),
     Grp 1 (seqs [chr CHR ''h'', chr CHR ''t'', chr CHR ''t'', chr CHR ''p'', opt (chr CHR ''s''),
       chr CHR '':'', chr CHR ''/'', chr CHR ''/'', plus (\<lambda>c. c \<noteq> 34)]),
     Cls (\<lambda>c. c = 34)]"

definition shorten_urls :: "(jsstring \<Rightarrow> jsstring option) \<Rightarrow> jsstring \<Rightarrow> jsstring" where
  "shorten_urls hostPath s =
     replaceAll url_rx
       (\<lambda>m caps. case capture caps 1 of
                    Some url \<Rightarrow> (case hostPath url of
                                   Some hp \<Rightarrow> 32 # 34 # hp @ [34]
                                 | None \<Rightarrow> m)
                  | None \<Rightarrow> m) s"

text \<open>
  The attribute patterns \<open>\s*\[url=[^\]]*\]\<close>, \<open>\s*\[description=""\]\<close>, \<open>\s*\[focused\]\<close>,
  \<open>\s*\[disabled=false\]\<close> and \<open>\s*\[level=\d+\]\<close>, each replaced by the empty string.
\<close>

definition attr_url :: rx where
  "attr_url = seqs [Star is_space, chr CHR ''['', chr CHR ''u'', chr CHR ''r'', chr CHR ''l'',
     chr CHR ''='', Star (\<lambda>c. c \<noteq> 93), chr CHR '']'']"

definition attr_lit :: "jsstring \<Rightarrow> rx" where
  "attr_lit w = seqs (Star is_space # map (\<lambda>c. Cls (\<lambda>x. x = c)) w)"

definition attr_level :: rx where
  "attr_level = seqs [Star is_space, chr CHR ''['', chr CHR ''l'', chr CHR ''e'', chr CHR ''v'',
     chr CHR ''e'', chr CHR ''l'', chr CHR ''='', plus is_digit, chr CHR '']'']"

definition strip_attrs :: "jsstring \<Rightarrow> jsstring" where
  "strip_attrs s =
     replaceAll attr_level (\<lambda>m caps. [])
       (replaceAll (attr_lit (js ''[disabled=false]'')) (\<lambda>m caps. [])
          (replaceAll (attr_lit (js ''[focused]'')) (\<lambda>m caps. [])
             (replaceAll (attr_lit (js ''[description='' @ [34, 34] @ js '']'')) (\<lambda>m caps. [])
                (replaceAll attr_url (\<lambda>m caps. []) s))))"

text \<open>
  The last replacement, \<open>/__REF_(\d+)__/g\<close> with \<open>refs[Number(idx)]\<close>: an index outside
  the array gives \<open>undefined\<close>, which \<open>replace\<close> prints as the string \<open>undefined\<close>.
\<close>

definition nat_of_digits :: "jsstring \<Rightarrow> nat" where
  "nat_of_digits ds = foldl (\<lambda>n d. 10 * n + (d - 48)) 0 ds"

definition placeholder_rx :: rx where
  "placeholder_rx = seqs [chr CHR ''_'', chr CHR ''_'', chr CHR ''R'', chr CHR ''E'', chr CHR ''F'',
     chr CHR ''_'', Grp 1 (plus is_digit), chr CHR ''_'', chr CHR ''_'']"

definition restore_refs :: "jsstring list \<Rightarrow> jsstring \<Rightarrow> jsstring" where
  "restore_refs refs s =
     replaceAll placeholder_rx
       (\<lambda>m caps. case capture caps 1 of
                    Some idx \<Rightarrow>
                      if nat_of_digits idx < length refs then refs ! nat_of_digits idx
                      else js ''undefined''
                  | None \<Rightarrow> js ''undefined'') s"

definition pruneLine :: "(jsstring \<Rightarrow> jsstring option) \<Rightarrow> jsstring \<Rightarrow> jsstring" where
  "pruneLine hostPath line =
     (case protect_refs [] line of
        (cleaned, refs) \<Rightarrow> restore_refs refs (strip_attrs (shorten_urls hostPath cleaned)))"

definition pruneAttributes :: "(jsstring \<Rightarrow> jsstring option) \<Rightarrow> jsstring \<Rightarrow> jsstring" where
  "pruneAttributes hostPath snapshot =
     join_lines
       (map (pruneLine hostPath)
          (filter (\<lambda>line. \<not> starts_after_space (js ''- /url:'') line) (split_lines snapshot)))"

subsection \<open>Semantic compression\<close>

definition AIRPORT_MAP :: "(jsstring \<times> jsstring) list" where
  "AIRPORT_MAP =
     [(js ''san francisco international'', js ''SFO''), (js ''san francisco'', js ''SFO''),
      (js ''john f. kennedy international'', js ''JFK''),
      (js ''john f kennedy international'', js ''JFK''),
      (js ''jfk'', js ''JFK''), (js ''kennedy'', js ''JFK''),
      (js ''los angeles international'', js ''LAX''), (js ''los angeles'', js ''LAX''),
      (js ''newark liberty international'', js ''EWR''), (js ''newark'', js ''EWR''),
      (js ''o'' @ 39 # js ''hare international'', js ''ORD''), (js ''ohare'', js ''ORD''),
      (js ''laguardia'', js ''LGA''),
      (js ''seattle-tacoma international'', js ''SEA''), (js ''seattle'', js ''SEA''),
      (js ''logan international'', js ''BOS''), (js ''boston'', js ''BOS''),
      (js ''hartsfield-jackson atlanta international'', js ''ATL''),
      (js ''dallas/fort worth international'', js ''DFW''),
      (js ''denver international'', js ''DEN''),
      (js ''miami international'', js ''MIA'')]"

definition airportCode ::
  "(jsstring \<Rightarrow> jsstring) \<Rightarrow> (jsstring \<Rightarrow> jsstring) \<Rightarrow> jsstring \<Rightarrow> jsstring" where
  "airportCode lower upper fullName =
     (let lowered = trim (replaceAll (lit_i ''airport'') (\<lambda>m caps. []) (toLowerCase lower fullName)) in
      case find (\<lambda>(key, code). str_includes lowered key) AIRPORT_MAP of
        Some (key, code) \<Rightarrow> code
      | None \<Rightarrow> toUpperCase upper (take 3 fullName))"

text \<open>The six patterns of \<open>compressFlightName\<close>, all with the \<open>i\<close> flag.\<close>

definition priceMatch :: rx where
  "priceMatch = seqs [opt (seqs [lit_i ''From'', plus is_space]), Grp 1 (plus is_digit),
     Star is_space, lit_i ''US'', Star is_space, lit_i ''dollar'', opt (chr_i CHR ''s'')]"

definition airlineMatch :: rx where
  "airlineMatch = seqs [lit_i ''dollar'', opt (chr_i CHR ''s''), opt (chr CHR ''.''), Star is_space,
     opt (seqs [lit_i ''round'', Star is_space, lit_i ''trip'', opt (chr CHR ''.''), Star is_space]),
     Grp 1 (plus_lazy (\<lambda>c. is_word c \<or> is_space c)), opt (chr CHR ''.''), Star is_space,
     Alt (lit_i ''Leaves'') (lit_i ''Departs'')]"

definition timeOfDay :: rx where
  "timeOfDay = seqs [plus is_digit, chr CHR '':'', plus is_digit, Star is_space,
     Alt (chr_i CHR ''A'') (chr_i CHR ''P''), chr_i CHR ''M'']"

definition depMatch :: rx where
  "depMatch = seqs [Alt (lit_i ''Leaves'') (lit_i ''Departs''), plus is_space,
     Grp 1 (plus_lazy is_dot), plus is_space, lit_i ''at'', plus is_space, Grp 2 timeOfDay]"

definition arrMatch :: rx where
  "arrMatch = seqs [lit_i ''Arrive'', opt (chr_i CHR ''s''), plus is_space,
     Grp 1 (plus_lazy is_dot), plus is_space, lit_i ''at'', plus is_space, Grp 2 timeOfDay]"

definition durMatch :: rx where
  "durMatch = seqs [opt (seqs [lit_i ''Total'', plus is_space]), lit_i ''duration'', plus is_space,
     Grp 1 (plus is_digit), Star is_space, chr_i CHR ''h'', opt (chr_i CHR ''r''), Star is_space,
     opt (Grp 2 (plus is_digit)), Star is_space, lit_i ''min'']"

definition stopsMatch :: rx where
  "stopsMatch = Grp 1 (Alt (lit_i ''Nonstop'')
     (seqs [plus is_digit, Star is_space, lit_i ''stop'', opt (chr_i CHR ''s'')]))"

text \<open>\<open>s.replace(/\s+/g, ' ')\<close> and \<open>s.replace(/\s/g, '')\<close>.\<close>

definition collapse_spaces :: "jsstring \<Rightarrow> jsstring" where
  "collapse_spaces s = replaceAll (plus is_space) (\<lambda>m caps. [32]) s"

definition remove_spaces :: "jsstring \<Rightarrow> jsstring" where
  "remove_spaces s = filter (\<lambda>c. \<not> is_space c) s"

text \<open>A capture that took part in the match; \<open>undefined\<close> prints as the empty string
  only where the source tests it first, which is the case for every use below.\<close>

definition cap :: "(nat \<times> jsstring) list \<Rightarrow> nat \<Rightarrow> jsstring" where
  "cap caps n = (case capture caps n of Some s \<Rightarrow> s | None \<Rightarrow> [])"

definition compressFlightName ::
  "(jsstring \<Rightarrow> jsstring) \<Rightarrow> (jsstring \<Rightarrow> jsstring) \<Rightarrow> jsstring \<Rightarrow> jsstring" where
  "compressFlightName lower upper nm =
     (case (rx_exec priceMatch nm, rx_exec depMatch nm, rx_exec arrMatch nm) of
        (Some pm, Some dm, Some am) \<Rightarrow>
          (let price = 36 # cap pm 1;
               airline = (case rx_exec airlineMatch nm of
                            Some alm \<Rightarrow> trim (cap alm 1) | None \<Rightarrow> []);
               depCode = airportCode lower upper (cap dm 1);
               depTime = remove_spaces (cap dm 2);
               arrCode = airportCode lower upper (cap am 1);
               arrTime = remove_spaces (cap am 2);
               dur = (case rx_exec durMatch nm of
                        Some du \<Rightarrow>
                          cap du 1 @ 104 #
                          (case capture du 2 of
                             Some mins \<Rightarrow> if mins \<noteq> [] then mins else []
                           | None \<Rightarrow> [])
                      | None \<Rightarrow> []);
               stops = (case rx_exec stopsMatch nm of
                          Some sm \<Rightarrow> toLowerCase lower (cap sm 1) | None \<Rightarrow> [])
           in trim (collapse_spaces
                (airline @ 32 # depCode @ 32 # depTime @ 8594 # arrCode @ 32 # arrTime @ 32 #
                 dur @ 32 # stops @ 32 # price)))
      | _ \<Rightarrow> nm)"

text \<open>The replacements of \<open>semanticCompress\<close> on a name that is not a flight itinerary.\<close>

definition dollars_from :: rx where
  "dollars_from = seqs [lit_i ''From '', Grp 1 (plus is_digit), lit_i '' US dollar'',
     opt (chr_i CHR ''s'')]"

definition dollars :: rx where
  "dollars = seqs [Grp 1 (plus is_digit), lit_i '' US dollar'', opt (chr_i CHR ''s'')]"

definition word_rx :: "rx \<Rightarrow> rx" where
  "word_rx r = seqs [Bnd, r, Bnd]"

definition compressWords :: "jsstring \<Rightarrow> jsstring" where
  "compressWords nm =
     (let n1 = replaceAll dollars_from (\<lambda>m caps. 36 # cap caps 1) nm;
          n2 = replaceAll dollars (\<lambda>m caps. 36 # cap caps 1) n1;
          n3 = trim (replaceAll (seqs [Cls is_space, plus is_space]) (\<lambda>m caps. [32]) n2);
          n4 = replaceAll (word_rx (lit_i ''Nonstop'')) (\<lambda>m caps. js ''nonstop'') n3;
          n5 = replaceAll (word_rx (lit_i ''Round trip'')) (\<lambda>m caps. js ''RT'') n4;
          n6 = replaceAll (word_rx (lit_i ''one stop'')) (\<lambda>m caps. js ''1-stop'') n5
      in replaceAll (word_rx (seqs [lit_i ''two stop'', opt (chr_i CHR ''s'')]))
           (\<lambda>m caps. js ''2-stop'') n6)"

definition compressLine ::
  "(jsstring \<Rightarrow> jsstring) \<Rightarrow> (jsstring \<Rightarrow> jsstring) \<Rightarrow> jsstring \<Rightarrow> jsstring" where
  "compressLine lower upper line =
     (case parseLine line of
        None \<Rightarrow> line
      | Some p \<Rightarrow>
          (case name_of p of
             None \<Rightarrow> line
           | Some nm \<Rightarrow>
               if nm = [] then line
               else if compressFlightName lower upper nm \<noteq> nm
               then buildLine (prefix p) (role_of p) (Some (compressFlightName lower upper nm)) (suffix p)
               else if compressWords nm \<noteq> nm
               then buildLine (prefix p) (role_of p) (Some (compressWords nm)) (suffix p)
               else line))"

definition semanticCompress ::
  "(jsstring \<Rightarrow> jsstring) \<Rightarrow> (jsstring \<Rightarrow> jsstring) \<Rightarrow> jsstring \<Rightarrow> jsstring" where
  "semanticCompress lower upper snapshot =
     join_lines (map (compressLine lower upper) (split_lines snapshot))"

subsection \<open>Smart truncation\<close>

definition has_role :: "jsstring \<Rightarrow> jsstring \<Rightarrow> bool" where
  "has_role rl line \<longleftrightarrow> (case parseLine line of Some p \<Rightarrow> role_of p = rl | None \<Rightarrow> False)"

text \<open>
  \<open>countSiblings\<close> and the slice up to \<open>findSiblingGroupEnd\<close>, on the lines from the
  start line on: both stop at the first line that is indented less than the start line.
\<close>

definition siblingGroup :: "jsstring list \<Rightarrow> jsstring list" where
  "siblingGroup ls =
     (case ls of [] \<Rightarrow> [] | l # rest \<Rightarrow> takeWhile (\<lambda>x. indentLevel x \<ge> indentLevel l) ls)"

definition countSiblings :: "jsstring list \<Rightarrow> jsstring \<Rightarrow> nat" where
  "countSiblings ls rl =
     (case ls of
        [] \<Rightarrow> 0
      | l # rest \<Rightarrow>
          length (filter (\<lambda>x. indentLevel x = indentLevel l \<and> has_role rl x) (siblingGroup ls)))"

text \<open>The summary line that replaces the items after the first \<open>maxItems\<close>.\<close>

definition summaryLine :: "jsstring list \<Rightarrow> jsstring \<Rightarrow> jsstring" where
  "summaryLine ls rl =
     (case ls of
        [] \<Rightarrow> []
      | l # rest \<Rightarrow>
          (let droppedRefs = collectRefs (siblingGroup ls);
               refNote =
                 (if droppedRefs \<noteq> []
                  then js '' ('' @ show_nat (length droppedRefs) @ js '' refs hidden: '' @
                       join_with 44 (take 3 droppedRefs) @ js ''...)''
                  else [])
           in replicate (indentLevel l * 2) 32 @ js ''- text '' @ 34 # js ''... and '' @
              show_nat (countSiblings ls rl) @ js '' more '' @ rl @ js ''s'' @ refNote @ [34]))"

text \<open>
  The loop of \<open>smartTruncate\<close> over the remaining lines.  \<open>listTracker\<close> maps the key
  \<open>`${indent}:${role}`\<close> to its count; a key that the map does not have yet counts 0.
\<close>

definition trackerKey :: "nat \<Rightarrow> jsstring \<Rightarrow> jsstring" where
  "trackerKey ind rl = show_nat ind @ 58 # rl"

function smartTruncate_loop ::
  "nat \<Rightarrow> (jsstring \<Rightarrow> nat) \<Rightarrow> jsstring list \<Rightarrow> jsstring list \<Rightarrow> jsstring list" where
  "smartTruncate_loop maxItems listTracker result [] = result"
| "smartTruncate_loop maxItems listTracker result (line # rest) =
     (case parseLine line of
        None \<Rightarrow> smartTruncate_loop maxItems listTracker (result @ [line]) rest
      | Some p \<Rightarrow>
          if role_of p = js ''listitem'' \<or> role_of p = js ''row'' \<or> role_of p = js ''article''
          then
            (let key = trackerKey (indentLevel line) (role_of p);
                 count = listTracker key + 1;
                 tracker = listTracker(key := count)
             in if count \<le> maxItems
                then smartTruncate_loop maxItems tracker (result @ [line]) rest
                else if count = maxItems + 1
                then smartTruncate_loop maxItems tracker
                       (result @ [summaryLine (line # rest) (role_of p)])
                       (after_subtree (indentLevel line) rest)
                else smartTruncate_loop maxItems tracker result
                       (after_subtree (indentLevel line) rest))
          else smartTruncate_loop maxItems listTracker (result @ [line]) rest)"
  by pat_completeness auto
termination
  by (relation "measure (\<lambda>(m, t, r, ls). length ls)")
     (auto simp add: after_subtree_def less_Suc_eq_le length_dropWhile_le)

declare smartTruncate_loop.simps [simp del]

definition smartTruncate :: "nat \<Rightarrow> jsstring \<Rightarrow> jsstring" where
  "smartTruncate maxItems snapshot =
     join_lines (smartTruncate_loop maxItems (\<lambda>k. 0) [] (split_lines snapshot))"

subsection \<open>Viewport-only and interactive-only filters\<close>

text \<open>Does a line of the subtree below carry a reference that satisfies \<open>ok\<close>?\<close>

definition ref_below :: "(jsstring \<Rightarrow> bool) \<Rightarrow> nat \<Rightarrow> jsstring list \<Rightarrow> bool" where
  "ref_below ok ind rest \<longleftrightarrow>
     (\<exists>l \<in> set (subtree ind rest). case first_ref l of Some r \<Rightarrow> ok r | None \<Rightarrow> False)"

fun viewportOnly_loop :: "jsstring list \<Rightarrow> jsstring list \<Rightarrow> jsstring list" where
  "viewportOnly_loop visibleRefs [] = []"
| "viewportOnly_loop visibleRefs (line # rest) =
     (if (case first_ref line of
            Some r \<Rightarrow> r \<in> set visibleRefs
          | None \<Rightarrow> ref_below (\<lambda>r. r \<in> set visibleRefs) (indentLevel line) rest)
      then line # viewportOnly_loop visibleRefs rest
      else viewportOnly_loop visibleRefs rest)"

definition viewportOnly :: "jsstring \<Rightarrow> jsstring list \<Rightarrow> jsstring" where
  "viewportOnly snapshot visibleRefs =
     (if visibleRefs = [] then snapshot
      else join_lines (viewportOnly_loop visibleRefs (split_lines snapshot)))"

fun interactiveOnly_loop :: "jsstring list \<Rightarrow> jsstring list" where
  "interactiveOnly_loop [] = []"
| "interactiveOnly_loop (line # rest) =
     (if has_ref line \<or>
         (parseLine line \<noteq> None \<and> ref_below (\<lambda>r. True) (indentLevel line) rest)
      then line # interactiveOnly_loop rest
      else interactiveOnly_loop rest)"

definition interactiveOnly :: "jsstring \<Rightarrow> jsstring" where
  "interactiveOnly snapshot = join_lines (interactiveOnly_loop (split_lines snapshot))"

subsection \<open>Collapse redundant children\<close>

text \<open>
  \<open>s.split(/\s+/).filter(w => w.length > 3)\<close>: the pieces between runs of white space;
  the empty pieces that \<open>split\<close> gives at the ends are shorter than 4 and filtered out.
\<close>

function words :: "jsstring \<Rightarrow> jsstring list" where
  "words s =
     (case dropWhile is_space s of
        [] \<Rightarrow> []
      | c # cs \<Rightarrow>
          takeWhile (\<lambda>x. \<not> is_space x) (c # cs) # words (dropWhile (\<lambda>x. \<not> is_space x) cs))"
  by pat_completeness auto
termination
proof (relation "measure length", goal_cases)
  case 1
  show ?case by simp
next
  case (2 s c cs)
  have "length (dropWhile (\<lambda>x. \<not> is_space x) cs) \<le> length cs"
    by (rule length_dropWhile_le)
  moreover have "length (c # cs) \<le> length s"
    using 2 length_dropWhile_le [of is_space s] by simp
  ultimately show ?case by simp
qed

declare words.simps [simp del]

definition longWords :: "jsstring \<Rightarrow> jsstring list" where
  "longWords s = filter (\<lambda>w. length w > 3) (words s)"

text \<open>
  The test on one line of the subtree: \<open>True\<close> when the line stops the scan with
  \<open>allRedundant = false\<close>.  \<open>contained.length < childWords.length * 0.6\<close> compares an
  integer with a multiple of \<open>0.6\<close>; for array lengths it holds exactly when
  \<open>5 * contained < 3 * childWords\<close>.
\<close>

definition notRedundant :: "(jsstring \<Rightarrow> jsstring) \<Rightarrow> jsstring \<Rightarrow> jsstring \<Rightarrow> bool" where
  "notRedundant lower parentNameLower line \<longleftrightarrow>
     (case parseLine line of
        None \<Rightarrow> True
      | Some child \<Rightarrow>
          (ref_of child \<noteq> None \<and> is_interactive (role_of child)) \<or>
          (case name_of child of
             None \<Rightarrow> False
           | Some n \<Rightarrow>
               n \<noteq> [] \<and>
               5 * length (filter (\<lambda>w. str_includes parentNameLower w) (longWords (toLowerCase lower n)))
                 < 3 * length (longWords (toLowerCase lower n))))"

definition collapsible :: "(jsstring \<Rightarrow> jsstring) \<Rightarrow> jsstring \<Rightarrow> jsstring list \<Rightarrow> bool" where
  "collapsible lower line rest \<longleftrightarrow>
     (case parseLine line of
        None \<Rightarrow> False
      | Some p \<Rightarrow>
          (case name_of p of
             None \<Rightarrow> False
           | Some n \<Rightarrow>
               length n > 40 \<and> (role_of p = js ''link'' \<or> role_of p = js ''button'') \<and>
               subtree (indentLevel line) rest \<noteq> [] \<and>
               (\<forall>l \<in> set (subtree (indentLevel line) rest). \<not> notRedundant lower (toLowerCase lower n) l)))"

function collapse_loop ::
  "(jsstring \<Rightarrow> jsstring) \<Rightarrow> jsstring list \<Rightarrow> jsstring list \<Rightarrow> jsstring list" where
  "collapse_loop lower result [] = result"
| "collapse_loop lower result (line # rest) =
     (if collapsible lower line rest
      then collapse_loop lower (result @ [line]) (after_subtree (indentLevel line) rest)
      else collapse_loop lower (result @ [line]) rest)"
  by pat_completeness auto
termination
  by (relation "measure (\<lambda>(lower, r, ls). length ls)")
     (auto simp add: after_subtree_def less_Suc_eq_le length_dropWhile_le)

declare collapse_loop.simps [simp del]

definition collapseRedundantChildren :: "(jsstring \<Rightarrow> jsstring) \<Rightarrow> jsstring \<Rightarrow> jsstring" where
  "collapseRedundantChildren lower snapshot =
     join_lines (collapse_loop lower [] (split_lines snapshot))"

subsection \<open>Truncate long names\<close>

text \<open>
  \<open>s.replace(/\s\S*$/, '')\<close>: the first white-space unit that only non-space units
  follow is the last white-space unit of the string; the string is cut there.
\<close>

definition cutLastWord :: "jsstring \<Rightarrow> jsstring" where
  "cutLastWord s =
     (case dropWhile (\<lambda>x. \<not> is_space x) (rev s) of
        [] \<Rightarrow> s
      | c # cs \<Rightarrow> rev cs)"

definition truncateLine :: "nat \<Rightarrow> jsstring \<Rightarrow> jsstring" where
  "truncateLine maxNameLength line =
     (case parseLine line of
        None \<Rightarrow> line
      | Some p \<Rightarrow>
          (case name_of p of
             None \<Rightarrow> line
           | Some n \<Rightarrow>
               if length n > maxNameLength
               then buildLine (prefix p) (role_of p)
                      (Some (cutLastWord (take maxNameLength n) @ js ''...'')) (suffix p)
               else line))"

definition truncateLongNames :: "nat \<Rightarrow> jsstring \<Rightarrow> jsstring" where
  "truncateLongNames maxNameLength snapshot =
     join_lines (map (truncateLine maxNameLength) (split_lines snapshot))"

subsection \<open>Remove noise\<close>

text \<open>
  The three tests of \<open>removeNoise\<close>: \<open>/^\s*- \/placeholder:/\<close>, \<open>/^\s*- text:\s*$/\<close> and
  \<open>/^\s*- text: "\s*"$/\<close>.
\<close>

definition isNoise :: "jsstring \<Rightarrow> bool" where
  "isNoise line \<longleftrightarrow>
     starts_after_space (js ''- /placeholder:'') line \<or>
     (starts_after_space (js ''- text:'') line \<and>
      list_all is_space (drop 7 (dropWhile is_space line))) \<or>
     (starts_after_space (js ''- text: '' @ [34]) line \<and>
      dropWhile is_space (drop 9 (dropWhile is_space line)) = [34])"

definition removeNoise :: "jsstring \<Rightarrow> jsstring" where
  "removeNoise snapshot = join_lines (filter (\<lambda>line. \<not> isNoise line) (split_lines snapshot))"

subsection \<open>Composition\<close>

text \<open>\<open>result.replace(/\n{3,}/g, '\n\n')\<close>.\<close>

definition collapseBlankLines :: "jsstring \<Rightarrow> jsstring" where
  "collapseBlankLines s =
     replaceAll (seqs [Cls (\<lambda>c. c = 10), Cls (\<lambda>c. c = 10), plus (\<lambda>c. c = 10)])
       (\<lambda>m caps. [10, 10]) s"

record options =
  maxItems :: "nat option"
  maxNameLength :: "nat option"
  visibleRefs :: "jsstring list option"
  interactiveOnlyOpt :: bool

definition defaultOptions :: options where
  "defaultOptions =
     \<lparr>maxItems = None, maxNameLength = None, visibleRefs = None, interactiveOnlyOpt = False\<rparr>"

definition optimizeAll ::
  "(jsstring \<Rightarrow> jsstring option) \<Rightarrow> (jsstring \<Rightarrow> jsstring) \<Rightarrow> (jsstring \<Rightarrow> jsstring) \<Rightarrow>
     jsstring \<Rightarrow> options \<Rightarrow> jsstring" where
  "optimizeAll hostPath lower upper snapshot opts =
     (let r1 = stripChrome snapshot;
          r2 = pruneAttributes hostPath r1;
          r3 = removeNoise r2;
          r4 = dedupLinks r3;
          r5 = collapseRedundantChildren lower r4;
          r6 = semanticCompress lower upper r5;
          r7 = truncateLongNames (case maxNameLength opts of Some n \<Rightarrow> n | None \<Rightarrow> 120) r6;
          r8 = smartTruncate (case maxItems opts of Some n \<Rightarrow> n | None \<Rightarrow> 5) r7;
          r9 = (case visibleRefs opts of Some v \<Rightarrow> viewportOnly r8 v | None \<Rightarrow> r8);
          r10 = (if interactiveOnlyOpt opts then interactiveOnly r9 else r9)
      in trim (collapseBlankLines r10))"

section \<open>The outline builder and the action resolver (browser.js)\<close>

subsection \<open>Accessibility nodes\<close>

text \<open>
  The fields of a CDP accessibility node that \<open>axTreeToSnapshot\<close> reads.  \<open>role_value\<close>
  and \<open>name_value\<close> are \<open>node.role?.value || ''\<close> and \<open>node.name?.value || ''\<close>;
  \<open>backendDOMNodeId\<close> is \<open>None\<close> when the node has none.
\<close>

record ax_node =
  nodeId :: jsstring
  parentId :: "jsstring option"
  role_value :: jsstring
  name_value :: jsstring
  backendDOMNodeId :: "int option"
  ignored :: bool

text \<open>\<open>nodeMap.get(id)\<close>: the last node of the list with this identifier.\<close>

definition nodeMap :: "ax_node list \<Rightarrow> jsstring \<Rightarrow> ax_node option" where
  "nodeMap nodes nid = find (\<lambda>n. nodeId n = nid) (rev nodes)"

text \<open>\<open>childMap.get(id) || []\<close>: the identifiers of the nodes whose parent is \<open>id\<close>, in
  the order of the list.\<close>

definition childMap :: "ax_node list \<Rightarrow> jsstring \<Rightarrow> jsstring list" where
  "childMap nodes nid = map nodeId (filter (\<lambda>n. parentId n = Some nid) nodes)"

definition SKIP_ROLES :: "jsstring list" where
  "SKIP_ROLES = map js
     [''none'', ''presentation'', ''InlineTextBox'', ''LineBreak'', ''StaticText'',
      ''RootWebArea'', ''ignored'']"

definition ROLE_MAP :: "(string \<times> string) list" where
  "ROLE_MAP =
     [(''button'', ''button''), (''link'', ''link''), (''textbox'', ''textbox''),
      (''TextField'', ''textbox''), (''checkbox'', ''checkbox''), (''radio'', ''radio''),
      (''combobox'', ''combobox''), (''listbox'', ''listbox''), (''menuitem'', ''menuitem''),
      (''option'', ''option''), (''searchbox'', ''searchbox''), (''slider'', ''slider''),
      (''spinbutton'', ''spinbutton''), (''switch'', ''switch''), (''tab'', ''tab''),
      (''treeitem'', ''treeitem''), (''heading'', ''heading''), (''cell'', ''cell''),
      (''gridcell'', ''gridcell''), (''columnheader'', ''columnheader''),
      (''rowheader'', ''rowheader''), (''listitem'', ''listitem''), (''article'', ''article''),
      (''region'', ''region''), (''main'', ''main''), (''navigation'', ''navigation''),
      (''dialog'', ''dialog''), (''document'', ''document''), (''group'', ''group''),
      (''list'', ''list''), (''table'', ''table''), (''row'', ''row''), (''generic'', ''generic''),
      (''text'', ''text''), (''strong'', ''strong''), (''emphasis'', ''emphasis''),
      (''paragraph'', ''text''), (''Section'', ''region''), (''WebArea'', ''document''),
      (''banner'', ''banner''), (''contentinfo'', ''contentinfo''),
      (''complementary'', ''region''), (''form'', ''group''), (''search'', ''searchbox''),
      (''img'', ''img''), (''image'', ''img''), (''figure'', ''figure''), (''menu'', ''menu''),
      (''menubar'', ''menubar''), (''toolbar'', ''toolbar''), (''tablist'', ''tablist''),
      (''tree'', ''tree''), (''grid'', ''grid''), (''rowgroup'', ''rowgroup''),
      (''status'', ''status''), (''alert'', ''alert''), (''separator'', ''separator''),
      (''progressbar'', ''progressbar'')]"

text \<open>
  \<open>map\<close> is an object literal, so \<open>map[cdpRole]\<close> also finds the properties that the
  object inherits from \<open>Object.prototype\<close>.  Their values are functions, and for
  \<open>__proto__\<close> the prototype itself; all are truthy, so \<open>mapRole\<close> returns them.  The
  code that follows uses the result in three ways: the membership test in
  \<open>INTERACTIVE_ROLES\<close> and the comparisons with \<open>'generic'\<close> and \<open>'text'\<close>, which are
  false for a value that is not a string, and the template literal of the line, which
  prints the value as a string.  The model therefore takes the printed string as the
  mapped role: \<open>function toString() { [native code] }\<close> is how V8 (Node, Chrome) prints
  a built-in function, and \<open>[object Object]\<close> is the prototype.
\<close>

definition PROTO_ROLES :: "(string \<times> string) list" where
  "PROTO_ROLES =
     [(''constructor'', ''function Object() { [native code] }''),
      (''__defineGetter__'', ''function __defineGetter__() { [native code] }''),
      (''__defineSetter__'', ''function __defineSetter__() { [native code] }''),
      (''hasOwnProperty'', ''function hasOwnProperty() { [native code] }''),
      (''__lookupGetter__'', ''function __lookupGetter__() { [native code] }''),
      (''__lookupSetter__'', ''function __lookupSetter__() { [native code] }''),
      (''isPrototypeOf'', ''function isPrototypeOf() { [native code] }''),
      (''propertyIsEnumerable'', ''function propertyIsEnumerable() { [native code] }''),
      (''toString'', ''function toString() { [native code] }''),
      (''valueOf'', ''function valueOf() { [native code] }''),
      (''__proto__'', ''[object Object]''),
      (''toLocaleString'', ''function toLocaleString() { [native code] }'')]"

text \<open>\<open>mapRole\<close>: \<open>map[cdpRole] || null\<close>, the object's own properties first.\<close>

definition mapRole :: "jsstring \<Rightarrow> jsstring option" where
  "mapRole cdpRole =
     map_option js (map_of (map (\<lambda>(k, v). (js k, v)) (ROLE_MAP @ PROTO_ROLES)) cdpRole)"

subsection \<open>The handle map\<close>

text \<open>
  A JavaScript \<open>Map\<close> keeps its keys in insertion order, which \<open>clickRef\<close> reads; it is
  modelled as an association list.  \<open>set\<close> on a key that is present overwrites the value
  in place.
\<close>

type_synonym ref_map = "(jsstring \<times> int) list"

definition map_set :: "ref_map \<Rightarrow> jsstring \<Rightarrow> int \<Rightarrow> ref_map" where
  "map_set m k v =
     (if k \<in> fst ` set m then map (\<lambda>(k', v'). if k' = k then (k', v) else (k', v')) m
      else m @ [(k, v)])"

definition map_get :: "ref_map \<Rightarrow> jsstring \<Rightarrow> int option" where
  "map_get m k = map_of m k"

definition map_keys :: "ref_map \<Rightarrow> jsstring list" where
  "map_keys m = map fst m"

subsection \<open>axTreeToSnapshot\<close>

text \<open>The variables that \<open>renderNode\<close> closes over and updates.\<close>

record render_state =
  refCounter :: nat
  refMap :: ref_map
  lines :: "jsstring list"

text \<open>What \<open>renderNode\<close> does for one node before it descends: the line and the
  reference, if the node gets them.\<close>

definition emitNode :: "ax_node \<Rightarrow> jsstring \<Rightarrow> nat \<Rightarrow> render_state \<Rightarrow> render_state" where
  "emitNode node mappedRole depth st =
     (let nam = name_value node;
          hasRef = (is_interactive mappedRole \<or>
                    (nam \<noteq> [] \<and> mappedRole \<noteq> js ''generic'' \<and> mappedRole \<noteq> js ''text''));
          counter = (if hasRef then refCounter st + 1 else refCounter st);
          refId = 101 # show_nat counter;
          rf = (if hasRef then js '' [ref='' @ refId @ js '']'' else []);
          rm = (case backendDOMNodeId node of
                  Some b \<Rightarrow> if hasRef \<and> b \<noteq> 0 then map_set (refMap st) refId b else refMap st
                | None \<Rightarrow> refMap st);
          nameStr = (if nam \<noteq> [] then 32 # 34 # nam @ [34] else [])
      in \<lparr>refCounter = counter, refMap = rm,
          lines = lines st @ [replicate (2 * depth) 32 @ js ''- '' @ mappedRole @ nameStr @ rf]\<rparr>)"

text \<open>
  \<open>renderNode\<close> and the loops over the children.  The recursion follows the parent links
  of the input, which may be cyclic; then the source overflows the stack.  The model
  counts the depth of the recursion down from \<open>fuel\<close> and returns \<open>None\<close> when it is
  used up.
\<close>

fun renderNode :: "nat \<Rightarrow> ax_node list \<Rightarrow> jsstring \<Rightarrow> nat \<Rightarrow> render_state \<Rightarrow> render_state option"
and renderNodes :: "nat \<Rightarrow> ax_node list \<Rightarrow> jsstring list \<Rightarrow> nat \<Rightarrow> render_state \<Rightarrow> render_state option"
where
  "renderNode 0 nodes nid depth st = None"
| "renderNode (Suc fuel) nodes nid depth st =
     (case nodeMap nodes nid of
        None \<Rightarrow> Some st
      | Some node \<Rightarrow>
          (let rl = role_value node; children = childMap nodes nid in
           if rl = js ''InlineTextBox'' \<or> rl = js ''LineBreak'' then Some st
           else if rl \<in> set SKIP_ROLES \<or> rl = js ''none''
           then renderNodes fuel nodes children depth st
           else
             (case mapRole rl of
                None \<Rightarrow> renderNodes fuel nodes children depth st
              | Some mappedRole \<Rightarrow>
                  if ignored node \<and> children = [] then Some st
                  else renderNodes fuel nodes children (depth + 1)
                         (emitNode node mappedRole depth st))))"
| "renderNodes fuel nodes [] depth st = Some st"
| "renderNodes fuel nodes (cid # cids) depth st =
     (case renderNode fuel nodes cid depth st of
        None \<Rightarrow> None
      | Some st' \<Rightarrow> renderNodes fuel nodes cids depth st')"

definition axTreeToSnapshot :: "nat \<Rightarrow> ax_node list \<Rightarrow> (jsstring \<times> ref_map) option" where
  "axTreeToSnapshot fuel nodes =
     (case nodes of
        [] \<Rightarrow> Some ([], [])
      | n0 # ns \<Rightarrow>
          (let root = (case find (\<lambda>n. parentId n = None) nodes of Some r \<Rightarrow> r | None \<Rightarrow> n0) in
           case renderNodes fuel nodes (childMap nodes (nodeId root)) 0
                  \<lparr>refCounter = 0, refMap = [], lines = []\<rparr> of
             None \<Rightarrow> None
           | Some st \<Rightarrow> Some (join_lines (lines st), refMap st)))"

subsection \<open>Reference-addressed actions\<close>

text \<open>
  Each action starts with the lookup of the reference in the current handle map and
  throws an \<open>Error\<close> when \<open>!backendNodeId\<close>.  What follows the lookup talks to the browser
  and is not modelled: the result \<open>Inr b\<close> stands for the action going on with the
  backend node \<open>b\<close>.
\<close>

datatype error = Error jsstring

definition lookupRef :: "ref_map \<Rightarrow> jsstring \<Rightarrow> int option" where
  "lookupRef m rf = (case map_get m rf of Some b \<Rightarrow> if b \<noteq> 0 then Some b else None | None \<Rightarrow> None)"

definition clickRef :: "ref_map \<Rightarrow> jsstring \<Rightarrow> error + int" where
  "clickRef m rf =
     (case lookupRef m rf of
        None \<Rightarrow>
          Inl (Error (js ''Unknown ref: '' @ rf @ js ''. Available refs: '' @
                      join_sep (js '', '') (take 10 (map_keys m)) @ js ''...''))
      | Some b \<Rightarrow> Inr b)"

definition fillRef :: "ref_map \<Rightarrow> jsstring \<Rightarrow> jsstring \<Rightarrow> error + int" where
  "fillRef m rf text =
     (case lookupRef m rf of
        None \<Rightarrow> Inl (Error (js ''Unknown ref: '' @ rf))
      | Some b \<Rightarrow> Inr b)"

definition hover :: "ref_map \<Rightarrow> jsstring \<Rightarrow> error + int" where
  "hover m rf =
     (case lookupRef m rf of
        None \<Rightarrow> Inl (Error (js ''Unknown ref: '' @ rf))
      | Some b \<Rightarrow> Inr b)"

definition selectOption :: "ref_map \<Rightarrow> jsstring \<Rightarrow> jsstring \<Rightarrow> error + int" where
  "selectOption m rf val =
     (case lookupRef m rf of
        None \<Rightarrow> Inl (Error (js ''Unknown ref: '' @ rf))
      | Some b \<Rightarrow> Inr b)"

section \<open>Scenario data\<close>

text \<open>The link name of the flight-compression scenario and the name it is to become.\<close>

definition flightName :: jsstring where
  "flightName = js ''From 320 US dollars round trip. United. Leaves San Francisco International at 7:15 AM. Arrives John F. Kennedy International at 3:40 PM. Total duration 5 hr 25 min. Nonstop''"

definition flightCompressed :: jsstring where
  "flightCompressed = js ''United SFO 7:15AM'' @ 8594 # js ''JFK 3:40PM 5h25 nonstop $320''"

text \<open>A \<open>hostPath\<close> for a platform whose \<open>new URL\<close> rejects every string.\<close>

definition rejectUrl :: "jsstring \<Rightarrow> jsstring option" where
  "rejectUrl url = None"

text \<open>
  The outlines of the scenarios hold ASCII names only, apart from the arrow that
  \<open>compressFlightName\<close> writes, and no scenario converts the case of a name with the
  arrow; the case tables of the platform are never consulted there.  The scenarios pass
  \<open>noCase\<close> for both of them.
\<close>

definition noCase :: "jsstring \<Rightarrow> jsstring" where
  "noCase s = s"

section \<open>Shapes of outlines\<close>

text \<open>A line that \<open>smartTruncate\<close> counts: an element with role listitem, row or article.\<close>

definition tracked :: "jsstring \<Rightarrow> bool" where
  "tracked line \<longleftrightarrow>
     has_role (js ''listitem'') line \<or> has_role (js ''row'') line \<or> has_role (js ''article'') line"

text \<open>
  A list item at indent \<open>d\<close> with its subtree: the item line, then lines that are indented
  deeper and that \<open>smartTruncate\<close> does not count.
\<close>

definition item_block :: "nat \<Rightarrow> jsstring list \<Rightarrow> bool" where
  "item_block d b \<longleftrightarrow>
     (case b of
        [] \<Rightarrow> False
      | item # kids \<Rightarrow>
          has_role (js ''listitem'') item \<and> indentLevel item = d \<and>
          list_all (\<lambda>k. indentLevel k > d \<and> \<not> tracked k) kids)"

text \<open>The text of a reference: \<open>e\<close> and at least one digit.\<close>

definition is_ref :: "jsstring \<Rightarrow> bool" where
  "is_ref r \<longleftrightarrow> (case r of [] \<Rightarrow> False | c # ds \<Rightarrow> c = 101 \<and> ds \<noteq> [] \<and> list_all is_digit ds)"

text \<open>
  The optional note of a summary line, \<open>( \(\d+ refs hidden: e\d+(,e\d+){0,2}\.\.\.\))?\<close>:
  empty, or a count and one to three references.
\<close>

definition is_ref_note :: "jsstring \<Rightarrow> bool" where
  "is_ref_note note \<longleftrightarrow>
     note = [] \<or>
     (\<exists>k refs. refs \<noteq> [] \<and> length refs \<le> 3 \<and> list_all is_ref refs \<and>
        note = js '' ('' @ show_nat k @ js '' refs hidden: '' @ join_with 44 refs @ js ''...)'')"

text \<open>
  Outlines for the truncation scenario: a list of 20 items, of which the first five have a
  link below them; and a list of 20 items of which the first holds six rows.
\<close>

definition s6_pre :: "jsstring list" where
  "s6_pre = [js ''- heading '' @ 34 # js ''Results'' @ 34 # js '' [ref=e1]'', js ''- list'']"

definition s6_blocks :: "jsstring list list" where
  "s6_blocks =
     replicate 5 [js ''  - listitem'', js ''    - link '' @ 34 # js ''Open'' @ 34 # js '' [ref=e2]''] @
     replicate 15 [js ''  - listitem '' @ 34 # js ''More'' @ 34 # js '' [ref=e3]'']"

definition s6_post :: "jsstring list" where
  "s6_post = [js ''- button '' @ 34 # js ''Next'' @ 34 # js '' [ref=e4]'']"

definition s6_nested :: "jsstring list" where
  "s6_nested =
     [js ''- list'', js ''  - listitem''] @ replicate 6 (js ''    - row'') @
     replicate 19 (js ''  - listitem'')"

section \<open>Properties of the outline builder\<close>

text \<open>The code units that the text of a reference tag \<open>[ref=e<n>]\<close> is made of.\<close>

definition tag_char :: "nat \<Rightarrow> bool" where
  "tag_char c \<longleftrightarrow> c \<in> set (js ''[ref=e]'') \<or> is_digit c"

text \<open>The references of the lines printed so far are keys of the handle map.\<close>

definition closed_state :: "render_state \<Rightarrow> bool" where
  "closed_state st \<longleftrightarrow> set (collectRefs (lines st)) \<subseteq> set (map_keys (refMap st))"

text \<open>
  The nodes for which \<open>renderNode\<close> prints a line when it visits them: the role is not
  skipped and has a mapped role, and the node is not an ignored node without children.
  Among them, the nodes for which it assigns a reference.
\<close>

definition prints_line :: "ax_node list \<Rightarrow> ax_node \<Rightarrow> bool" where
  "prints_line nodes n \<longleftrightarrow>
     role_value n \<notin> set SKIP_ROLES \<and> mapRole (role_value n) \<noteq> None \<and>
     \<not> (ignored n \<and> childMap nodes (nodeId n) = [])"

definition bears_ref :: "ax_node list \<Rightarrow> ax_node \<Rightarrow> bool" where
  "bears_ref nodes n \<longleftrightarrow>
     prints_line nodes n \<and>
     (case mapRole (role_value n) of
        None \<Rightarrow> False
      | Some r \<Rightarrow>
          is_interactive r \<or> (name_value n \<noteq> [] \<and> r \<noteq> js ''generic'' \<and> r \<noteq> js ''text''))"

text \<open>
  The lists of nodes on which the references of the outline are keys of the handle map:
  the nodes that get a reference have a backend DOM node identifier that is not 0, and
  the nodes that get a line have a name that holds no reference tag.
\<close>

definition plain_nodes :: "ax_node list \<Rightarrow> bool" where
  "plain_nodes nodes \<longleftrightarrow>
     (\<forall>n \<in> set nodes.
        (bears_ref nodes n \<longrightarrow> (\<exists>b. backendDOMNodeId n = Some b \<and> b \<noteq> 0)) \<and>
        (prints_line nodes n \<longrightarrow> all_refs (name_value n) = []))"

text \<open>
  A page with a heading, a button and an inline text box, in which only the heading and
  the button have a backend DOM node identifier; the same page with a button that has
  none; and a page whose heading has a name that reads like a reference tag.
\<close>

definition c1_root :: ax_node where
  "c1_root = \<lparr>nodeId = js ''1'', parentId = None, role_value = js ''RootWebArea'',
     name_value = js ''Shop'', backendDOMNodeId = None, ignored = False\<rparr>"

definition c1_heading :: ax_node where
  "c1_heading = \<lparr>nodeId = js ''2'', parentId = Some (js ''1''), role_value = js ''heading'',
     name_value = js ''Shop'', backendDOMNodeId = Some 12, ignored = False\<rparr>"

definition c1_button :: ax_node where
  "c1_button = \<lparr>nodeId = js ''3'', parentId = Some (js ''1''), role_value = js ''button'',
     name_value = js ''Go'', backendDOMNodeId = Some 13, ignored = False\<rparr>"

definition c1_inline :: ax_node where
  "c1_inline = \<lparr>nodeId = js ''4'', parentId = Some (js ''1''),
     role_value = js ''InlineTextBox'', name_value = js ''Go'', backendDOMNodeId = None,
     ignored = False\<rparr>"

definition c1_orphan :: ax_node where
  "c1_orphan = \<lparr>nodeId = js ''2'', parentId = Some (js ''1''), role_value = js ''button'',
     name_value = js ''Go'', backendDOMNodeId = None, ignored = False\<rparr>"

definition c1_tagged :: ax_node where
  "c1_tagged = \<lparr>nodeId = js ''2'', parentId = Some (js ''1''), role_value = js ''heading'',
     name_value = js ''[ref=e9]'', backendDOMNodeId = Some 12, ignored = False\<rparr>"

definition c1_nodes :: "ax_node list" where
  "c1_nodes = [c1_root, c1_heading, c1_button, c1_inline]"

definition c1_detached :: "ax_node list" where
  "c1_detached = [c1_root, c1_orphan]"

definition c1_named :: "ax_node list" where
  "c1_named = [c1_root, c1_tagged]"

section \<open>Properties of the clean-up\<close>



section \<open>References carried by an outline\<close>

text \<open>
  The references that the element lines of an outline carry: those in the part of a line
  that follows the role and the name, where the outline builder prints them.
\<close>

definition carried :: "jsstring \<Rightarrow> jsstring set" where
  "carried x =
     {r. \<exists>l \<in> set (split_lines x). \<exists>p. parseLine l = Some p \<and> r \<in> set (all_refs (suffix p))}"

text \<open>An article with two links of the same name.\<close>

definition c2_article :: jsstring where
  "c2_article =
     join_lines [js ''- article'',
       js ''  - link '' @ 34 # js ''Read more'' @ 34 # js '' [ref=e1]'',
       js ''  - link '' @ 34 # js ''Read more'' @ 34 # js '' [ref=e2]'']"

section \<open>Outlines that the pipeline leaves as they are\<close>

text \<open>
  What each reducer acts on, line by line.  A chrome line is one that \<open>stripChrome\<close>
  takes for the root of a chrome subtree; \<open>pruneAttributes\<close> drops the \<open>/url:\<close> lines and
  rewrites the others; \<open>dedupLinks\<close> drops unnamed images; \<open>truncateLongNames\<close> rewrites
  the lines whose name is longer than the limit.
\<close>

definition chrome_line :: "jsstring \<Rightarrow> bool" where
  "chrome_line l \<longleftrightarrow> (case parseLine l of Some p \<Rightarrow> isChromeLine p l | None \<Rightarrow> False)"

definition url_line :: "jsstring \<Rightarrow> bool" where
  "url_line l \<longleftrightarrow> starts_after_space (js ''- /url:'') l"

definition long_name :: "nat \<Rightarrow> jsstring \<Rightarrow> bool" where
  "long_name k l \<longleftrightarrow>
     (case parseLine l of
        Some p \<Rightarrow> (case name_of p of Some n \<Rightarrow> length n > k | None \<Rightarrow> False)
      | None \<Rightarrow> False)"

text \<open>
  \<open>dedupLinks\<close> has nothing to drop: no image is unnamed, and no link has the name of
  an earlier link of the same article.  The articles are the scopes of the source, kept
  on the stack as there.
\<close>

fun dedup_idle :: "(nat \<times> jsstring list) list \<Rightarrow> jsstring list \<Rightarrow> bool" where
  "dedup_idle scopeStack [] \<longleftrightarrow> True"
| "dedup_idle scopeStack (line # rest) \<longleftrightarrow>
     (let indent = indentLevel line;
          p = parseLine line;
          stack = dropWhile (\<lambda>sc. indent \<le> fst sc) scopeStack;
          rl = map_option role_of p;
          nm = (case p of Some q \<Rightarrow> name_of q | None \<Rightarrow> None)
      in
        if rl = Some (js ''article'') then dedup_idle ((indent, []) # stack) rest
        else
          (case (if rl = Some (js ''link'') \<and> truthy nm then nm else None, stack) of
             (Some n, (si, seen) # scopes) \<Rightarrow>
               n \<notin> set seen \<and> dedup_idle ((si, n # seen) # scopes) rest
           | _ \<Rightarrow> \<not> (rl = Some (js ''img'') \<and> \<not> truthy nm) \<and> dedup_idle stack rest))"

text \<open>\<open>collapseRedundantChildren\<close> has nothing to drop: no line is a link or button whose
  subtree is redundant.\<close>

fun collapse_idle :: "(jsstring \<Rightarrow> jsstring) \<Rightarrow> jsstring list \<Rightarrow> bool" where
  "collapse_idle lower [] \<longleftrightarrow> True"
| "collapse_idle lower (line # rest) \<longleftrightarrow>
     \<not> collapsible lower line rest \<and> collapse_idle lower rest"

text \<open>
  \<open>smartTruncate\<close> has nothing to drop: the key \<open>indent:role\<close> of a listitem, row or
  article line is the key of at most \<open>maxItems\<close> lines.
\<close>

definition item_key :: "jsstring \<Rightarrow> jsstring option" where
  "item_key l =
     (case parseLine l of
        Some p \<Rightarrow>
          if role_of p = js ''listitem'' \<or> role_of p = js ''row'' \<or> role_of p = js ''article''
          then Some (trackerKey (indentLevel l) (role_of p)) else None
      | None \<Rightarrow> None)"

definition few_items :: "nat \<Rightarrow> jsstring list \<Rightarrow> bool" where
  "few_items k ls \<longleftrightarrow>
     list_all (\<lambda>l. item_key l = None \<or> length (filter (\<lambda>m. item_key m = item_key l) ls) \<le> k) ls"

text \<open>
  An outline, as the list of its lines, on which none of the eight reducers of the
  default pipeline has anything to do.
\<close>

definition stable ::
  "(jsstring \<Rightarrow> jsstring option) \<Rightarrow> (jsstring \<Rightarrow> jsstring) \<Rightarrow> (jsstring \<Rightarrow> jsstring) \<Rightarrow>
     jsstring list \<Rightarrow> bool" where
  "stable hostPath lower upper ls \<longleftrightarrow>
     list_all (\<lambda>l. \<not> chrome_line l) ls \<and>
     list_all (\<lambda>l. \<not> url_line l \<and> pruneLine hostPath l = l) ls \<and>
     list_all (\<lambda>l. \<not> isNoise l) ls \<and>
     dedup_idle [] ls \<and>
     collapse_idle lower ls \<and>
     list_all (\<lambda>l. compressLine lower upper l = l) ls \<and>
     list_all (\<lambda>l. \<not> long_name 120 l) ls \<and>
     few_items 5 ls"

text \<open>
  A page with a banner, a heading with a level attribute, an unnamed image and a button.
\<close>

definition c3_page :: jsstring where
  "c3_page =
     join_lines [js ''- banner'', js ''  - text '' @ 34 # js ''Logo'' @ [34],
       js ''- heading '' @ 34 # js ''News'' @ 34 # js '' [level=1] [ref=e1]'',
       js ''- img'',
       js ''- button '' @ 34 # js ''Go'' @ 34 # js '' [ref=e2]'']"

section \<open>Properties of the differ\<close>

text \<open>The role table with its code units written out, for evaluation.\<close>

lemma ELEMENT_ROLES_units:
  "ELEMENT_ROLES =
     [[98, 117, 116, 116, 111, 110], [108, 105, 110, 107], [116, 101, 120, 116, 98, 111,
     120], [99, 104, 101, 99, 107, 98, 111, 120], [114, 97, 100, 105, 111], [99, 111, 109,
     98, 111, 98, 111, 120], [108, 105, 115, 116, 98, 111, 120], [109, 101, 110, 117, 105,
     116, 101, 109], [109, 101, 110, 117, 105, 116, 101, 109, 99, 104, 101, 99, 107, 98,
     111, 120], [109, 101, 110, 117, 105, 116, 101, 109, 114, 97, 100, 105, 111], [111,
     112, 116, 105, 111, 110], [115, 101, 97, 114, 99, 104, 98, 111, 120], [115, 108, 105,
     100, 101, 114], [115, 112, 105, 110, 98, 117, 116, 116, 111, 110], [115, 119, 105,
     116, 99, 104], [116, 97, 98], [116, 114, 101, 101, 105, 116, 101, 109], [104, 101,
     97, 100, 105, 110, 103], [99, 101, 108, 108], [103, 114, 105, 100, 99, 101, 108,
     108], [99, 111, 108, 117, 109, 110, 104, 101, 97, 100, 101, 114], [114, 111, 119,
     104, 101, 97, 100, 101, 114], [108, 105, 115, 116, 105, 116, 101, 109], [97, 114,
     116, 105, 99, 108, 101], [114, 101, 103, 105, 111, 110], [109, 97, 105, 110], [110,
     97, 118, 105, 103, 97, 116, 105, 111, 110], [100, 105, 97, 108, 111, 103], [100, 111,
     99, 117, 109, 101, 110, 116], [103, 114, 111, 117, 112], [108, 105, 115, 116], [116,
     97, 98, 108, 101], [114, 111, 119], [103, 101, 110, 101, 114, 105, 99], [116, 101,
     120, 116], [115, 116, 114, 111, 110, 103], [101, 109, 112, 104, 97, 115, 105, 115],
     [109, 97, 114, 107]]"
  by (simp add: ELEMENT_ROLES_def)

lemmas differ_eval =
  parseElements_def parseElement_def match_role_def ELEMENT_ROLES_units
  ref_tag_def quoted_name_def is_space_def is_digit_def is_dot_def List.map_filter_def
  trimStart_def computeDiff_def byRef_def byRoleName_def matchStep_def findPrev_def
  isMatched_def roleNameKey_def NOISE_ROLES_def filterNoise_def extractTitle_def
  heading_name_def renderElement_def renderChange_def

lemma byRef_Some_aux:
  "foldl (\<lambda>m el. case ref el of Some r \<Rightarrow> m(r \<mapsto> el) | None \<Rightarrow> m) m0 els r = Some p \<Longrightarrow>
     (p \<in> set els \<and> ref p = Some r) \<or> m0 r = Some p"
  by (induction els arbitrary: m0) (fastforce split: option.splits if_splits)+

lemma byRef_Some: "byRef els r = Some p \<Longrightarrow> p \<in> set els \<and> ref p = Some r"
  using byRef_Some_aux [of Map.empty els r p] by (simp add: byRef_def)

lemma byRef_dom_aux:
  "(\<exists>el \<in> set els. ref el = Some r) \<or> m0 r \<noteq> None \<Longrightarrow>
     foldl (\<lambda>m el. case ref el of Some r \<Rightarrow> m(r \<mapsto> el) | None \<Rightarrow> m) m0 els r \<noteq> None"
proof (induction els arbitrary: m0)
  case Nil
  then show ?case by simp
next
  case (Cons a els)
  show ?case
    unfolding foldl_Cons
    apply (rule Cons.IH)
    using Cons.prems by (auto split: option.splits)
qed

lemma byRef_dom: "el \<in> set els \<Longrightarrow> ref el = Some r \<Longrightarrow> byRef els r \<noteq> None"
  using byRef_dom_aux [of els r Map.empty] by (auto simp: byRef_def)

lemma byRoleName_dom_aux:
  "(\<exists>el \<in> set els. roleNameKey el = k) \<or> m0 k \<noteq> None \<Longrightarrow>
     foldl (\<lambda>m el. if m (roleNameKey el) = None then m(roleNameKey el \<mapsto> el) else m) m0 els k \<noteq> None"
proof (induction els arbitrary: m0)
  case Nil
  then show ?case by simp
next
  case (Cons a els)
  show ?case
    unfolding foldl_Cons
    apply (rule Cons.IH)
    using Cons.prems by (auto split: option.splits)
qed

lemma byRoleName_dom: "el \<in> set els \<Longrightarrow> byRoleName els (roleNameKey el) \<noteq> None"
  using byRoleName_dom_aux [of els "roleNameKey el" Map.empty] by (auto simp: byRoleName_def)

lemma refs_agreeD:
  "refs_agree els \<Longrightarrow> a \<in> set els \<Longrightarrow> b \<in> set els \<Longrightarrow> ref a = Some r \<Longrightarrow> ref b = Some r
     \<Longrightarrow> name a = name b"
  unfolding refs_agree_def
  by (drule bspec [where x = a], assumption, drule bspec [where x = b], assumption, simp)

lemma findPrev_self:
  assumes "refs_agree els" "el \<in> set els"
  shows "\<exists>p k. findPrev (byRef els) (byRoleName els) el = Some (p, k) \<and>
           (ref el \<noteq> None \<and> ref p = ref el \<longrightarrow> name el = name p) \<and> isMatched {k} el"
proof (cases "ref el")
  case None
  obtain p where p: "byRoleName els (roleNameKey el) = Some p"
    using byRoleName_dom [OF assms(2)] by auto
  show ?thesis using None p by (simp add: findPrev_def isMatched_def)
next
  case (Some r)
  then obtain q where q: "byRef els r = Some q" using byRef_dom [OF assms(2)] by auto
  then have "q \<in> set els" "ref q = Some r" using byRef_Some by auto
  then have "name el = name q" using refs_agreeD [OF assms(1) assms(2) _ Some] by simp
  then show ?thesis using Some q by (simp add: findPrev_def isMatched_def)
qed

lemma matchStep_self:
  assumes "refs_agree els" "el \<in> set els"
  shows "added (matchStep (byRef els) (byRoleName els) st el) = added st"
    and "changed (matchStep (byRef els) (byRoleName els) st el) = changed st"
    and "isMatched (matchedPrevKeys (matchStep (byRef els) (byRoleName els) st el)) el"
    and "matchedPrevKeys st \<subseteq> matchedPrevKeys (matchStep (byRef els) (byRoleName els) st el)"
proof -
  obtain p k where fp: "findPrev (byRef els) (byRoleName els) el = Some (p, k)"
    and nm: "ref el \<noteq> None \<and> ref p = ref el \<longrightarrow> name el = name p" and k: "isMatched {k} el"
    using findPrev_self [OF assms] by blast
  have ms: "matchStep (byRef els) (byRoleName els) st el =
      st\<lparr>unchanged := Suc (unchanged st), matchedPrevKeys := insert k (matchedPrevKeys st)\<rparr>"
  proof -
    have "\<not> (ref el \<noteq> None \<and> ref p = ref el \<and> name el \<noteq> name p)"
      using nm by blast
    then show ?thesis
      unfolding matchStep_def fp by (simp add: Let_def)
  qed
  show "added (matchStep (byRef els) (byRoleName els) st el) = added st"
    by (simp add: ms)
  show "changed (matchStep (byRef els) (byRoleName els) st el) = changed st"
    by (simp add: ms)
  show "isMatched (matchedPrevKeys (matchStep (byRef els) (byRoleName els) st el)) el"
    using k by (auto simp add: ms isMatched_def split: option.splits)
  show "matchedPrevKeys st \<subseteq> matchedPrevKeys (matchStep (byRef els) (byRoleName els) st el)"
    by (auto simp add: ms)
qed

lemma isMatched_mono: "isMatched K el \<Longrightarrow> K \<subseteq> K' \<Longrightarrow> isMatched K' el"
  by (auto simp: isMatched_def split: option.splits)

lemma match_loop_self:
  assumes "refs_agree els" "set ys \<subseteq> set els"
  shows "added (foldl (matchStep (byRef els) (byRoleName els)) st ys) = added st \<and>
         changed (foldl (matchStep (byRef els) (byRoleName els)) st ys) = changed st \<and>
         matchedPrevKeys st \<subseteq> matchedPrevKeys (foldl (matchStep (byRef els) (byRoleName els)) st ys) \<and>
         (\<forall>el \<in> set ys. isMatched (matchedPrevKeys (foldl (matchStep (byRef els) (byRoleName els)) st ys)) el)"
  using assms(2)
proof (induction ys arbitrary: st)
  case Nil
  then show ?case by simp
next
  case (Cons y ys)
  let ?st = "matchStep (byRef els) (byRoleName els) st y"
  have y: "y \<in> set els" and ys: "set ys \<subseteq> set els" using Cons.prems by auto
  note s = matchStep_self [OF assms(1) y, of st]
  note ih = Cons.IH [OF ys, of ?st]
  have "isMatched (matchedPrevKeys (foldl (matchStep (byRef els) (byRoleName els)) ?st ys)) y"
    using s(3) ih isMatched_mono by blast
  then show ?case using s ih by auto
qed

lemma computeDiff_self_aux:
  assumes "refs_agree (parseElements x)"
  shows "isEmpty (computeDiff x x u u) \<and>
         stat_added (stats (computeDiff x x u u)) = 0 \<and>
         stat_removed (stats (computeDiff x x u u)) = 0 \<and>
         stat_changed (stats (computeDiff x x u u)) = 0"
proof -
  let ?els = "parseElements x"
  let ?st = "foldl (matchStep (byRef ?els) (byRoleName ?els))
                 \<lparr>added = [], changed = [], unchanged = 0, matchedPrevKeys = {}\<rparr> ?els"
  have l: "added ?st = []" "changed ?st = []" "\<forall>el \<in> set ?els. isMatched (matchedPrevKeys ?st) el"
    using match_loop_self [OF assms subset_refl, of "\<lparr>added = [], changed = [], unchanged = 0, matchedPrevKeys = {}\<rparr>"]
    by auto
  have "filter filterNoise (filter (\<lambda>el. \<not> isMatched (matchedPrevKeys ?st) el) ?els) = []"
    using l(3) by (simp add: filter_empty_conv)
  then show ?thesis using l(1,2)
    by (simp add: computeDiff_def Let_def del: filter_filter)
qed



subsection \<open>The counts of the diff\<close>

lemma find_in: "find P xs = Some x \<Longrightarrow> x \<in> set xs"
  by (induction xs) (auto split: if_splits)































text \<open>
  Claim C5, for the outlines the differ is made for: when the parsed elements of \<open>x\<close>
  that share a reference share their name (in particular when every reference occurs
  once), the diff of \<open>x\<close> against itself is empty and counts no addition, removal or
  change.
\<close>

theorem computeDiff_self:
  assumes "refs_agree (parseElements x)"
  shows "isEmpty (computeDiff x x u u) \<and>
         stat_added (stats (computeDiff x x u u)) = 0 \<and>
         stat_removed (stats (computeDiff x x u u)) = 0 \<and>
         stat_changed (stats (computeDiff x x u u)) = 0"
  using assms by (rule computeDiff_self_aux)

theorem computeDiff_self_witness:
  \<open>refs_agree (parseElements (js ''- heading "News" [ref=e1]'' @ 10 # js ''- button "Go" [ref=e2]'')) \<and>
   isEmpty (computeDiff (js ''- heading "News" [ref=e1]'' @ 10 # js ''- button "Go" [ref=e2]'')
     (js ''- heading "News" [ref=e1]'' @ 10 # js ''- button "Go" [ref=e2]'') (js ''u'') (js ''u'')) \<and>
   stat_added (stats (computeDiff (js ''- heading "News" [ref=e1]'' @ 10 # js ''- button "Go" [ref=e2]'')
     (js ''- heading "News" [ref=e1]'' @ 10 # js ''- button "Go" [ref=e2]'') (js ''u'') (js ''u''))) = 0 \<and>
   stat_removed (stats (computeDiff (js ''- heading "News" [ref=e1]'' @ 10 # js ''- button "Go" [ref=e2]'')
     (js ''- heading "News" [ref=e1]'' @ 10 # js ''- button "Go" [ref=e2]'') (js ''u'') (js ''u''))) = 0 \<and>
   stat_changed (stats (computeDiff (js ''- heading "News" [ref=e1]'' @ 10 # js ''- button "Go" [ref=e2]'')
     (js ''- heading "News" [ref=e1]'' @ 10 # js ''- button "Go" [ref=e2]'') (js ''u'') (js ''u''))) = 0\<close>
proof -
  have h: \<open>refs_agree (parseElements (js ''- heading "News" [ref=e1]'' @ 10 # js ''- button "Go" [ref=e2]''))\<close>
    by (simp add: refs_agree_def differ_eval Let_def cong: let_weak_cong)
  show ?thesis
    by (rule conjI [OF h computeDiff_self [OF h]])
qed

text \<open>
  Claim C5 as stated fails for an outline in which one reference stands on two elements
  with different names: the table by reference keeps the last of them, so the first is
  reported as changed.
\<close>

theorem computeDiff_self_counterexample:
  \<open>\<not> isEmpty (computeDiff (js ''- button "A" [ref=e1]'' @ 10 # js ''- button "B" [ref=e1]'')
        (js ''- button "A" [ref=e1]'' @ 10 # js ''- button "B" [ref=e1]'') (js ''u'') (js ''u'')) \<and>
   stat_changed (stats (computeDiff (js ''- button "A" [ref=e1]'' @ 10 # js ''- button "B" [ref=e1]'')
        (js ''- button "A" [ref=e1]'' @ 10 # js ''- button "B" [ref=e1]'') (js ''u'') (js ''u''))) = 1\<close>
  by (simp add: differ_eval Let_def cong: let_weak_cong)




section \<open>Evaluation\<close>

text \<open>
  Closed terms are evaluated by rewriting with the defining equations.  The two recursive
  functions without a constructor pattern get equations that unfold on a constructor.
\<close>

lemma rx_replace_Nil:
  "rx_replace r f prev [] =
     (case rx_match r (prev, [], []) of [] \<Rightarrow> [] | (prev', rest', caps) # ts \<Rightarrow> f [] caps)"
  by (subst rx_replace.simps) (simp split: list.splits)

lemma rx_replace_Cons:
  "rx_replace r f prev (c # cs) =
     (case rx_match r (prev, c # cs, []) of
        [] \<Rightarrow> c # rx_replace r f (Some c) cs
      | (prev', rest', caps) # ts \<Rightarrow>
          if length rest' < length (c # cs)
          then f (take (length (c # cs) - length rest') (c # cs)) caps @ rx_replace r f prev' rest'
          else f [] caps @ c # rx_replace r f (Some c) cs)"
  by (subst rx_replace.simps) (simp split: list.splits)

lemma words_Nil: "words [] = []"
  by (subst words.simps) simp

lemma words_Cons:
  "words (c # cs) =
     (if is_space c then words cs
      else takeWhile (\<lambda>x. \<not> is_space x) (c # cs) # words (dropWhile (\<lambda>x. \<not> is_space x) cs))"
proof (cases "is_space c")
  case True
  have "words (c # cs) = (case dropWhile is_space cs of [] \<Rightarrow> []
      | d # ds \<Rightarrow> takeWhile (\<lambda>x. \<not> is_space x) (d # ds) # words (dropWhile (\<lambda>x. \<not> is_space x) ds))"
    by (subst words.simps) (simp add: True)
  also have "\<dots> = words cs"
    by (subst (2) words.simps) simp
  finally show ?thesis by (simp add: True)
next
  case False
  then show ?thesis by (subst words.simps) simp
qed

lemma show_nat_digit: "n < 10 \<Longrightarrow> show_nat n = [48 + n]"
  by (subst show_nat.simps) simp

lemma indentLevel_Nil: "indentLevel [] = 0"
  by (simp add: indentLevel_def)

lemma indentLevel_single: "indentLevel [a] = 0"
  by (simp add: indentLevel_def)

lemma indentLevel_Cons2:
  "indentLevel (a # b # cs) = (if is_space a \<and> is_space b then Suc (indentLevel cs) else 0)"
  by (simp add: indentLevel_def)

lemma replicate_twice_0: "replicate (0 * 2) c = []"
  by simp

lemma replicate_twice_Suc: "replicate (Suc n * 2) c = c # c # replicate (n * 2) c"
  by simp

lemma Suc_le_1: "Suc n \<le> 1 \<longleftrightarrow> n = 0"
  by auto

lemma Suc_eq_1: "Suc n = 1 \<longleftrightarrow> n = 0"
  by auto

lemma plus_1_Suc: "n + 1 = Suc n"
  by simp

lemma drop_1_Cons: "drop 1 (x # xs) = xs"
  by simp

lemma drop_1_Nil: "drop 1 [] = []"
  by simp

lemma numeral_minus_1: "numeral v - (1::nat) = pred_numeral v"
  by (simp add: numeral_eq_Suc)

text \<open>
  The rules below are used with \<open>simp only\<close>: the library rules that compute with
  numerals, lists, pairs and options, then the defining equations of each part of the model.
\<close>

lemmas ev_base =
  simp_thms if_True if_False Let_def id_apply o_apply
  rel_simps arith_simps more_arith_simps arith_special
  diff_nat_numeral nat_numeral nat_neg_numeral nat_0 diff_numeral_simps
  of_char_Char horner_sum_simps of_bool_eq
  diff_Suc_Suc diff_zero diff_0_eq_0 Suc_less_eq Suc_le_mono zero_less_Suc not_less0 le0
  not_less_eq_eq nat.inject nat.distinct
  less_Suc_numeral less_numeral_Suc le_Suc_numeral le_numeral_Suc eq_numeral_Suc Suc_eq_numeral
  pred_numeral_simps
  list.case list.map list.inject list.distinct length_Cons list.size(3) append.simps
  concat.simps rev.simps takeWhile.simps dropWhile.simps filter.simps foldl.simps foldr.simps
  find.simps list.pred_inject list.set list.sel insert_iff empty_iff bex_simps ball_simps
  take_Cons_numeral drop_Cons_numeral take_0 drop_0 take_Nil drop_Nil take_Suc_Cons
  drop_Suc_Cons nth_Cons_numeral nth_Cons_0 nth_Cons_Suc
  prod.case fst_conv snd_conv prod.inject
  option.case option.inject option.distinct option.map map_of.simps fun_upd_apply
  replicate.simps
  show_nat_digit drop_1_Cons drop_1_Nil numeral_minus_1 Suc_le_1 Suc_eq_1 plus_1_Suc
  Suc_numeral add_Suc_right add_Suc add_0_right add_0
  replicate_twice_0 replicate_twice_Suc

lemmas ev_cong = if_weak_cong list.case_cong_weak option.case_cong_weak prod.case_cong_weak

lemmas string_ev =
  is_space_def is_digit_def is_word_def is_dot_def split_lines.simps join_lines.simps
  join_with.simps join_sep.simps trimStart_def trimEnd_def trim_def starts_with.simps
  toLowerCase_def toUpperCase_def lower_ascii_def upper_ascii_def is_ascii_def
  lower_unit_def upper_unit_def str_includes.simps

lemmas rx_ev =
  rx_match.simps star_greedy.simps star_lazy.simps rx_search.simps rx_exec_def
  rx_replace_Nil rx_replace_Cons replaceAll_def chr_def chr_i_def seqs_def lit_i_def opt_def
  plus_def plus_lazy_def capture_def cap_def at_boundary_def ci_fold_def

lemmas line_ev =
  indentLevel_Nil indentLevel_single indentLevel_Cons2
  ref_tag_def first_ref.simps has_ref_def all_refs.simps collectRefs_def
  name_group_def parseLine_def truthy_def subtree_def after_subtree_def buildLine_def
  INTERACTIVE_ROLES_def is_interactive_def parsed.simps

lemmas flight_ev =
  priceMatch_def airlineMatch_def timeOfDay_def depMatch_def arrMatch_def durMatch_def
  stopsMatch_def compressFlightName_def airportCode_def AIRPORT_MAP_def collapse_spaces_def
  remove_spaces_def

lemmas strip_ev =
  chrome_name_def ad_name_def isChromeLine_def rescue_def stripChrome_loop.simps chromeLine_def
  stripChrome_def

lemmas dedup_ev = dedupLinks_loop.simps dedupLinks_def

lemmas prune_ev =
  starts_after_space_def protect_refs.simps url_rx_def shorten_urls_def attr_url_def attr_lit_def
  attr_level_def strip_attrs_def nat_of_digits_def placeholder_rx_def restore_refs_def
  pruneLine_def pruneAttributes_def

lemmas compress_ev =
  dollars_from_def dollars_def word_rx_def compressWords_def compressLine_def semanticCompress_def

lemmas smart_ev =
  has_role_def siblingGroup_def countSiblings_def summaryLine_def trackerKey_def
  smartTruncate_loop.simps smartTruncate_def

lemmas collapse_ev =
  words_Nil words_Cons longWords_def notRedundant_def collapsible_def collapse_loop.simps
  collapseRedundantChildren_def

lemmas misc_ev =
  cutLastWord_def truncateLine_def truncateLongNames_def isNoise_def removeNoise_def
  collapseBlankLines_def defaultOptions_def optimizeAll_def options.simps rejectUrl_def noCase_def

lemmas all_ev = ev_base string_ev rx_ev line_ev flight_ev strip_ev dedup_ev prune_ev
  compress_ev smart_ev collapse_ev misc_ev

section \<open>Remove noise\<close>

text \<open>
  Claim C6 at the line \<open>- text " "\<close>, the outline grammar's form of a text element whose
  name is one space: the three patterns of \<open>removeNoise\<close> all require a colon after
  \<open>text\<close> (or \<open>/placeholder:\<close>), so the line is not dropped, while the line
  \<open>- text: " "\<close> with a colon is.
\<close>

theorem removeNoise_keeps_blank_text:
  \<open>removeNoise (js ''- text " "'') = js ''- text " "'' \<and>
   parseLine (js ''- text " "'') \<noteq> None \<and>
   map_option role_of (parseLine (js ''- text " "'')) = Some (js ''text'') \<and>
   map_option name_of (parseLine (js ''- text " "'')) = Some (Some (js '' '')) \<and>
   removeNoise (js ''- text: " "'') = []\<close>
  by (simp add: removeNoise_def isNoise_def starts_after_space_def string_ev
      name_group_def parseLine_def first_ref.simps ref_tag_def Let_def)

section \<open>Unknown references\<close>

text \<open>
  Claim C7 at the reference \<open>e99\<close> with the handle map \<open>e1 \<mapsto> 11, e2 \<mapsto> 12\<close>: \<open>clickRef\<close>
  names the known references in its message; \<open>fillRef\<close>, \<open>hover\<close> and \<open>selectOption\<close>
  fail with the message \<open>Unknown ref: e99\<close> and name none.
\<close>

theorem unknown_ref_messages:
  "clickRef [(js ''e1'', 11), (js ''e2'', 12)] (js ''e99'') =
     Inl (Error (js ''Unknown ref: e99. Available refs: e1, e2...'')) \<and>
   fillRef [(js ''e1'', 11), (js ''e2'', 12)] (js ''e99'') (js ''hello'') =
     Inl (Error (js ''Unknown ref: e99'')) \<and>
   hover [(js ''e1'', 11), (js ''e2'', 12)] (js ''e99'') =
     Inl (Error (js ''Unknown ref: e99'')) \<and>
   selectOption [(js ''e1'', 11), (js ''e2'', 12)] (js ''e99'') (js ''hello'') =
     Inl (Error (js ''Unknown ref: e99''))"
  by (simp add: clickRef_def fillRef_def hover_def selectOption_def lookupRef_def map_get_def
      map_keys_def)

section \<open>Flight compression\<close>

lemma split_lines_single: "10 \<notin> set s \<Longrightarrow> split_lines s = [s]"
  by (induction s) auto

lemma compressFlightName_flightName: "compressFlightName lower upper flightName = flightCompressed"
  unfolding flightName_def flightCompressed_def
  by (simp only: ev_base string_ev rx_ev flight_ev cong: ev_cong)

lemma flightName_facts:
  "34 \<notin> set flightName" "10 \<notin> set flightName" "flightName \<noteq> []" "flightCompressed \<noteq> flightName"
  "10 \<notin> set flightCompressed"
  by (simp_all add: flightName_def flightCompressed_def)

lemma is_word_not_space: "is_word c \<Longrightarrow> \<not> is_space c"
  by (auto simp: is_word_def is_space_def is_digit_def)

lemma takeWhile_all_append: "list_all P xs \<Longrightarrow> takeWhile P (xs @ ys) = xs @ takeWhile P ys"
  by (induction xs) auto

lemma dropWhile_all_append: "list_all P xs \<Longrightarrow> dropWhile P (xs @ ys) = dropWhile P ys"
  by (induction xs) auto

lemma list_all_spaces: "list_all is_space (replicate n 32)"
  by (induction n) (simp_all add: is_space_def)

lemma parseLine_named:
  assumes "w \<noteq> []" "list_all is_word w" "34 \<notin> set nm" "list_all is_dot sfx"
  shows "parseLine (replicate n 32 @ 45 # 32 # w @ 32 # 34 # nm @ 34 # sfx) =
     Some \<lparr>prefix = replicate n 32 @ [45, 32], role_of = lower_ascii w, name_of = Some nm,
           suffix = sfx, ref_of = first_ref sfx,
           raw = replicate n 32 @ 45 # 32 # w @ 32 # 34 # nm @ 34 # sfx\<rparr>"
proof -
  have sp: "is_space 32" "\<not> is_space 45" "\<not> is_word 32" "\<not> is_space 34"
    by (simp_all add: is_space_def is_word_def is_digit_def)
  obtain c cs where w: "w = c # cs" using assms(1) by (cases w) auto
  have c: "is_word c" "\<not> is_space c" using assms(2) w is_word_not_space by auto
  have nq: "list_all (\<lambda>x. x \<noteq> 34) nm" using assms(3) by (auto simp add: list_all_iff)
  have d1: "dropWhile is_space (replicate n 32 @ 45 # 32 # w @ 32 # 34 # nm @ 34 # sfx)
      = 45 # 32 # w @ 32 # 34 # nm @ 34 # sfx"
    by (simp add: dropWhile_all_append list_all_spaces sp)
  have t1: "takeWhile is_space (replicate n 32 @ 45 # 32 # w @ 32 # 34 # nm @ 34 # sfx)
      = replicate n 32"
    by (simp add: takeWhile_all_append list_all_spaces sp)
  have d2: "dropWhile is_space (32 # w @ 32 # 34 # nm @ 34 # sfx) = w @ 32 # 34 # nm @ 34 # sfx"
    by (simp add: sp w c)
  have t2: "takeWhile is_space (32 # w @ 32 # 34 # nm @ 34 # sfx) = [32]"
    by (simp add: sp w c)
  have t3: "takeWhile is_word (w @ 32 # 34 # nm @ 34 # sfx) = w"
    using assms(2) by (simp add: takeWhile_all_append sp)
  have d3: "dropWhile is_word (w @ 32 # 34 # nm @ 34 # sfx) = 32 # 34 # nm @ 34 # sfx"
    using assms(2) by (simp add: dropWhile_all_append sp)
  have t4: "takeWhile (\<lambda>x. x \<noteq> 34) (nm @ 34 # sfx) = nm"
    using nq by (simp add: takeWhile_all_append)
  have d4: "dropWhile (\<lambda>x. x \<noteq> 34) (nm @ 34 # sfx) = 34 # sfx"
    using nq by (simp add: dropWhile_all_append)
  have ng: "name_group (32 # 34 # nm @ 34 # sfx) = Some (nm, sfx)"
    by (simp add: name_group_def sp t4 d4)
  show ?thesis
    unfolding parseLine_def
    using assms(1,4)
    by (simp only: d1 t1 d2 t2 t3 d3 ng Let_def list.case option.case prod.case simp_thms
        if_False if_True append.simps)
qed

lemma semanticCompress_flight_aux:
  assumes "w \<noteq> []" "list_all is_word w" "lower_ascii w = w" "list_all is_dot sfx"
  shows "semanticCompress lower upper (replicate n 32 @ js ''- '' @ w @ 32 # 34 # flightName @ 34 # sfx) =
     replicate n 32 @ js ''- '' @ w @ 32 # 34 # flightCompressed @ 34 # sfx"
proof -
  let ?line = "replicate n 32 @ js ''- '' @ w @ 32 # 34 # flightName @ 34 # sfx"
  have "10 \<notin> set w" using assms(2) by (auto simp: list_all_iff is_word_def is_digit_def)
  moreover have "10 \<notin> set sfx" using assms(4) by (auto simp: list_all_iff is_dot_def)
  ultimately have "10 \<notin> set ?line" using flightName_facts(2) by auto
  then have sl: "split_lines ?line = [?line]" by (rule split_lines_single)
  have pl: "parseLine ?line = Some \<lparr>prefix = replicate n 32 @ js ''- '', role_of = lower_ascii w,
       name_of = Some flightName, suffix = sfx, ref_of = first_ref sfx, raw = ?line\<rparr>"
    using parseLine_named [OF assms(1,2) flightName_facts(1) assms(4), of n] by simp
  have "compressLine lower upper ?line = replicate n 32 @ js ''- '' @ w @ 32 # 34 # flightCompressed @ 34 # sfx"
    unfolding compressLine_def pl
    by (simp add: compressFlightName_flightName flightName_facts buildLine_def assms(3))
  then show ?thesis
    unfolding semanticCompress_def sl by simp
qed

text \<open>
  Claim C8.  On a line that carries the flight-itinerary name of the scenario, with any
  indentation, any role (a non-empty word in lower case, as all roles of the outline
  grammar are) and any suffix that \<open>parseLine\<close> accepts (no line terminator), semantic
  compression replaces the name by \<open>United SFO 7:15AM\<rightarrow>JFK 3:40PM 5h25 nonstop $320\<close> and
  leaves the prefix, the role and the suffix as they are, whatever the case tables
  \<open>lower\<close> and \<open>upper\<close> of the platform are.
\<close>

theorem semanticCompress_flight:
  assumes "w \<noteq> []" "list_all is_word w" "lower_ascii w = w" "list_all is_dot sfx"
  shows "compressFlightName lower upper flightName = flightCompressed \<and>
     semanticCompress lower upper (replicate n 32 @ js ''- '' @ w @ 32 # 34 # flightName @ 34 # sfx) =
       replicate n 32 @ js ''- '' @ w @ 32 # 34 # flightCompressed @ 34 # sfx"
  using semanticCompress_flight_aux [OF assms] compressFlightName_flightName by simp

theorem semanticCompress_flight_witness:
  "js ''link'' \<noteq> [] \<and> list_all is_word (js ''link'') \<and> lower_ascii (js ''link'') = js ''link'' \<and>
   list_all is_dot (js '' [ref=e7]'') \<and>
   compressFlightName noCase noCase flightName = flightCompressed \<and>
   semanticCompress noCase noCase
     (replicate 2 32 @ js ''- '' @ js ''link'' @ 32 # 34 # flightName @ 34 # js '' [ref=e7]'') =
     replicate 2 32 @ js ''- '' @ js ''link'' @ 32 # 34 # flightCompressed @ 34 # js '' [ref=e7]''"
proof -
  have h1: "js ''link'' \<noteq> []" by simp
  have h2: "list_all is_word (js ''link'')" by (simp add: is_word_def is_digit_def)
  have h3: "lower_ascii (js ''link'') = js ''link''" by (simp add: lower_ascii_def lower_unit_def)
  have h4: "list_all is_dot (js '' [ref=e7]'')" by (simp add: is_dot_def)
  show ?thesis
    using h1 h2 h3 h4 semanticCompress_flight [OF h1 h2 h3 h4, of noCase noCase 2] by blast
qed

section \<open>Idempotence of the pipeline\<close>

text \<open>
  Claim C3 as stated fails.  A link named \<open>Cookie settings\<close> inside a banner is rescued
  into the \<open>chrome-actions\<close> group at indent 1; on the next run its name makes it a
  chrome line again, it is rescued again, and a second group line is added.
\<close>

lemma optimizeAll_cookie_once:
  \<open>optimizeAll rejectUrl noCase noCase (js ''- banner'' @ 10 # js ''  - link "Cookie settings" [ref=e1]'')
     defaultOptions =
   js ''- group "chrome-actions"'' @ 10 # js ''  - link "Cookie settings" [ref=e1]''\<close>
  by (simp only: all_ev cong: ev_cong)




subsection \<open>The clean-up at the end of the pipeline\<close>



























subsection \<open>Outlines that the pipeline leaves as they are\<close>
























lemmas stable_ev =
  stable_def chrome_line_def url_line_def long_name_def dedup_idle.simps collapse_idle.simps
  item_key_def few_items_def isChromeLine_def c3_page_def




text \<open>
  In the outline of the counterexample, the optimized form is not of this kind: the
  rescued link is a chrome line.
\<close>

lemma cookie_not_stable:
  \<open>\<not> stable rejectUrl noCase noCase
     (split_lines (optimizeAll rejectUrl noCase noCase
        (js ''- banner'' @ 10 # js ''  - link "Cookie settings" [ref=e1]'') defaultOptions))\<close>
  unfolding optimizeAll_cookie_once
  by (simp only: stable_ev all_ev le_zero_eq numeral_One chrome_name_def ad_name_def cong: ev_cong)

section \<open>Smart truncation of a list\<close>

lemma split_join_lines:
  "ls \<noteq> [] \<Longrightarrow> \<forall>l \<in> set ls. 10 \<notin> set l \<Longrightarrow> split_lines (join_lines ls) = ls"
proof (induction ls rule: join_lines.induct)
  case 1
  then show ?case by simp
next
  case (2 l)
  then show ?case by (simp add: split_lines_single)
next
  case (3 l v va)
  have a: "split_lines (xs @ 10 # ys) = xs # split_lines ys" if "10 \<notin> set xs" for xs ys
    using that by (induction xs) auto
  show ?case using 3 by (simp add: a)
qed

lemma tracked_role:
  "tracked l \<longleftrightarrow> (\<exists>p. parseLine l = Some p \<and>
      (role_of p = js ''listitem'' \<or> role_of p = js ''row'' \<or> role_of p = js ''article''))"
  by (auto simp add: tracked_def has_role_def split: option.splits)

lemma loop_untracked:
  "\<forall>l \<in> set ls. \<not> tracked l \<Longrightarrow>
     smartTruncate_loop m tr res (ls @ rest) = smartTruncate_loop m tr (res @ ls) rest"
proof (induction ls arbitrary: res)
  case Nil
  then show ?case by simp
next
  case (Cons l ls)
  have nt: "\<not> tracked l" using Cons.prems by simp
  have "smartTruncate_loop m tr res (l # ls @ rest) = smartTruncate_loop m tr (res @ [l]) (ls @ rest)"
  proof (cases "parseLine l")
    case None
    then show ?thesis by (simp add: smartTruncate_loop.simps)
  next
    case (Some p)
    then have "\<not> (role_of p = js ''listitem'' \<or> role_of p = js ''row'' \<or> role_of p = js ''article'')"
      using nt tracked_role by blast
    then show ?thesis using Some by (simp add: smartTruncate_loop.simps)
  qed
  then show ?case using Cons by simp
qed

lemma after_subtree_kids:
  "list_all (\<lambda>k. indentLevel k > d) kids \<Longrightarrow> rest = [] \<or> indentLevel (hd rest) \<le> d \<Longrightarrow>
     after_subtree d (kids @ rest) = rest"
  by (cases rest) (auto simp add: after_subtree_def dropWhile_all_append list_all_iff)

lemma loop_item:
  assumes "has_role (js ''listitem'') item" "indentLevel item = d"
  shows "smartTruncate_loop m tr res (item # rest) =
     (if tr (trackerKey d (js ''listitem'')) + 1 \<le> m
      then smartTruncate_loop m (tr(trackerKey d (js ''listitem'') := tr (trackerKey d (js ''listitem'')) + 1))
             (res @ [item]) rest
      else if tr (trackerKey d (js ''listitem'')) + 1 = m + 1
      then smartTruncate_loop m (tr(trackerKey d (js ''listitem'') := tr (trackerKey d (js ''listitem'')) + 1))
             (res @ [summaryLine (item # rest) (js ''listitem'')]) (after_subtree d rest)
      else smartTruncate_loop m (tr(trackerKey d (js ''listitem'') := tr (trackerKey d (js ''listitem'')) + 1))
             res (after_subtree d rest))"
proof -
  obtain p where p: "parseLine item = Some p" "role_of p = js ''listitem''"
    using assms(1) by (auto simp add: has_role_def split: option.splits)
  show ?thesis
    by (subst smartTruncate_loop.simps) (simp add: p assms(2) Let_def)
qed

lemma block_split:
  assumes "item_block d b"
  shows "\<exists>item kids. b = item # kids \<and> has_role (js ''listitem'') item \<and> indentLevel item = d \<and>
    list_all (\<lambda>k. indentLevel k > d) kids \<and> (\<forall>k \<in> set kids. \<not> tracked k)"
  using assms by (cases b) (auto simp add: item_block_def list_all_iff)

lemma keep_blocks:
  assumes "\<forall>b \<in> set bs. item_block d b" "tr (trackerKey d (js ''listitem'')) + length bs \<le> m"
  shows "smartTruncate_loop m tr res (concat bs @ rest) =
     smartTruncate_loop m
       (tr(trackerKey d (js ''listitem'') := tr (trackerKey d (js ''listitem'')) + length bs))
       (res @ concat bs) rest"
  using assms
proof (induction bs arbitrary: tr res)
  case Nil
  then show ?case by simp
next
  case (Cons b bs)
  let ?k = "trackerKey d (js ''listitem'')"
  obtain item kids where b: "b = item # kids" "has_role (js ''listitem'') item" "indentLevel item = d"
    "list_all (\<lambda>k. indentLevel k > d) kids" "\<forall>k \<in> set kids. \<not> tracked k"
    using Cons.prems(1) block_split [of d b] by force
  let ?tr = "tr(?k := tr ?k + 1)"
  have c: "tr ?k + 1 \<le> m" using Cons.prems(2) by simp
  have "smartTruncate_loop m tr res (concat (b # bs) @ rest) =
        smartTruncate_loop m tr res (item # kids @ concat bs @ rest)"
    by (simp add: b(1))
  also have "\<dots> = smartTruncate_loop m ?tr (res @ [item]) (kids @ concat bs @ rest)"
    using c by (simp add: loop_item [OF b(2,3)])
  also have "\<dots> = smartTruncate_loop m ?tr ((res @ [item]) @ kids) (concat bs @ rest)"
    by (rule loop_untracked [OF b(5)])
  also have "\<dots> = smartTruncate_loop m (?tr(?k := ?tr ?k + length bs)) (((res @ [item]) @ kids) @ concat bs) rest"
    using Cons.prems by (intro Cons.IH) auto
  finally have e: "smartTruncate_loop m tr res (concat (b # bs) @ rest) =
      smartTruncate_loop m (?tr(?k := ?tr ?k + length bs)) (((res @ [item]) @ kids) @ concat bs) rest" .
  have eq: "?tr(?k := ?tr ?k + length bs) = tr(?k := tr ?k + length (b # bs))"
    by (simp add: fun_upd_upd)
  have rs: "((res @ [item]) @ kids) @ concat bs = res @ concat (b # bs)"
    by (simp add: b(1))
  show ?case using e unfolding eq rs .
qed

lemma blocks_head:
  assumes "\<forall>b \<in> set bs. item_block d b" "post = [] \<or> indentLevel (hd post) \<le> d"
  shows "concat bs @ post = [] \<or> indentLevel (hd (concat bs @ post)) \<le> d"
proof (cases bs)
  case Nil
  then show ?thesis using assms(2) by simp
next
  case (Cons b bs')
  then obtain item kids where "b = item # kids" "indentLevel item = d"
    using assms(1) block_split [of d b] by force
  then show ?thesis using Cons by simp
qed

lemma skip_blocks:
  assumes "\<forall>b \<in> set bs. item_block d b" "m + 1 \<le> tr (trackerKey d (js ''listitem''))"
    "post = [] \<or> indentLevel (hd post) \<le> d"
  shows "smartTruncate_loop m tr res (concat bs @ post) =
     smartTruncate_loop m
       (tr(trackerKey d (js ''listitem'') := tr (trackerKey d (js ''listitem'')) + length bs))
       res post"
  using assms(1,2)
proof (induction bs arbitrary: tr)
  case Nil
  then show ?case by simp
next
  case (Cons b bs)
  let ?k = "trackerKey d (js ''listitem'')"
  obtain item kids where b: "b = item # kids" "has_role (js ''listitem'') item" "indentLevel item = d"
    "list_all (\<lambda>k. indentLevel k > d) kids" "\<forall>k \<in> set kids. \<not> tracked k"
    using Cons.prems(1) block_split [of d b] by force
  let ?tr = "tr(?k := tr ?k + 1)"
  have bs: "\<forall>b \<in> set bs. item_block d b" using Cons.prems(1) by simp
  have nx: "after_subtree d (kids @ concat bs @ post) = concat bs @ post"
    by (rule after_subtree_kids [OF b(4) blocks_head [OF bs assms(3)]])
  have "smartTruncate_loop m tr res (concat (b # bs) @ post) =
        smartTruncate_loop m tr res (item # kids @ concat bs @ post)"
    by (simp add: b(1))
  also have "\<dots> = smartTruncate_loop m ?tr res (concat bs @ post)"
    using Cons.prems(2) by (simp add: loop_item [OF b(2,3)] nx)
  also have "\<dots> = smartTruncate_loop m (?tr(?k := ?tr ?k + length bs)) res post"
    using Cons.prems(2) by (intro Cons.IH [OF bs]) simp
  finally have e: "smartTruncate_loop m tr res (concat (b # bs) @ post) =
      smartTruncate_loop m (?tr(?k := ?tr ?k + length bs)) res post" .
  have eq: "?tr(?k := ?tr ?k + length bs) = tr(?k := tr ?k + length (b # bs))"
    by (simp add: fun_upd_upd)
  show ?case using e unfolding eq .
qed

lemma blocks_levels:
  "\<forall>b \<in> set bs. item_block d b \<Longrightarrow> list_all (\<lambda>x. indentLevel x \<ge> d) (concat bs)"
proof (induction bs)
  case Nil
  then show ?case by simp
next
  case (Cons b bs)
  obtain item kids where b: "b = item # kids" "indentLevel item = d"
    "list_all (\<lambda>k. indentLevel k > d) kids"
    using Cons.prems block_split [of d b] by force
  have "list_all (\<lambda>x. indentLevel x \<ge> d) kids"
    using b(3) by (auto simp add: list_all_iff)
  then show ?case using Cons b by simp
qed

lemma count_blocks:
  "\<forall>b \<in> set bs. item_block d b \<Longrightarrow>
     length (filter (\<lambda>x. indentLevel x = d \<and> has_role (js ''listitem'') x) (concat bs)) = length bs"
proof (induction bs)
  case Nil
  then show ?case by simp
next
  case (Cons b bs)
  obtain item kids where b: "b = item # kids" "has_role (js ''listitem'') item" "indentLevel item = d"
    "list_all (\<lambda>k. indentLevel k > d) kids"
    using Cons.prems block_split [of d b] by force
  have "filter (\<lambda>x. indentLevel x = d \<and> has_role (js ''listitem'') x) kids = []"
    using b(4) by (auto simp add: list_all_iff filter_empty_conv)
  then show ?case using Cons b by simp
qed

lemma untracked_not_listitem: "\<not> tracked l \<Longrightarrow> \<not> has_role (js ''listitem'') l"
  by (simp add: tracked_def)

lemma countSiblings_blocks:
  assumes "\<forall>b \<in> set bs. item_block d b" "bs \<noteq> []" "\<forall>l \<in> set post. \<not> tracked l"
  shows "countSiblings (concat bs @ post) (js ''listitem'') = length bs"
proof -
  obtain b bs' where bs: "bs = b # bs'" using assms(2) by (cases bs) auto
  obtain item kids where b: "b = item # kids" "indentLevel item = d"
    using assms(1) bs block_split [of d b] by force
  have ls: "concat bs @ post = item # (kids @ concat bs' @ post)" by (simp add: bs b)
  have tw: "takeWhile (\<lambda>x. indentLevel x \<ge> d) (concat bs @ post) =
      concat bs @ takeWhile (\<lambda>x. indentLevel x \<ge> d) post"
    by (rule takeWhile_all_append [OF blocks_levels [OF assms(1)]])
  have "filter (\<lambda>x. indentLevel x = d \<and> has_role (js ''listitem'') x)
          (takeWhile (\<lambda>x. indentLevel x \<ge> d) post) = []"
    using assms(3) untracked_not_listitem by (auto simp add: filter_empty_conv dest: set_takeWhileD)
  then have "length (filter (\<lambda>x. indentLevel x = d \<and> has_role (js ''listitem'') x)
      (takeWhile (\<lambda>x. indentLevel x \<ge> d) (concat bs @ post))) = length bs"
    using count_blocks [OF assms(1)] by (simp add: tw)
  then show ?thesis
    unfolding countSiblings_def siblingGroup_def ls [symmetric]
    by (simp add: ls b(2))
qed

lemma all_refs_is_ref: "r \<in> set (all_refs s) \<Longrightarrow> is_ref r"
proof (induction s rule: all_refs.induct)
  case 1
  then show ?case by simp
next
  case (2 c cs)
  show ?case
  proof (cases "ref_tag (c # cs)")
    case None
    then show ?thesis using 2 by simp
  next
    case (Some a)
    obtain r' rest where a: "a = (r', rest)" by (cases a)
    have "is_ref r'"
      using Some a by (auto simp add: ref_tag_def is_ref_def Let_def list_all_iff
          split: if_splits dest: set_takeWhileD)
    then show ?thesis using 2 Some a by auto
  qed
qed

lemma summaryLine_form:
  assumes "ls \<noteq> []" "indentLevel (hd ls) = d" "countSiblings ls (js ''listitem'') = 15"
  shows "\<exists>note. is_ref_note note \<and>
     summaryLine ls (js ''listitem'') =
       replicate (2 * d) 32 @ js ''- text '' @ 34 # js ''... and 15 more listitems'' @ note @ [34]"
proof -
  obtain l rest where ls: "ls = l # rest" using assms(1) by (cases ls) auto
  let ?dr = "collectRefs (siblingGroup ls)"
  let ?note = "if ?dr \<noteq> [] then js '' ('' @ show_nat (length ?dr) @ js '' refs hidden: '' @
                       join_with 44 (take 3 ?dr) @ js ''...)'' else []"
  have "list_all is_ref (take 3 ?dr)"
    by (auto simp add: list_all_iff collectRefs_def dest!: in_set_takeD intro: all_refs_is_ref)
  then have n: "is_ref_note ?note"
    unfolding is_ref_note_def
    by (cases "?dr = []") (auto intro!: exI [of _ "length ?dr"] exI [of _ "take 3 ?dr"])
  have s15: "show_nat 15 = js ''15''"
    by (simp add: show_nat.simps)
  have "summaryLine ls (js ''listitem'') =
       replicate (2 * d) 32 @ js ''- text '' @ 34 # js ''... and 15 more listitems'' @ ?note @ [34]"
    using assms(2,3) unfolding summaryLine_def ls
    by (simp add: Let_def s15 mult.commute)
  then show ?thesis using n by blast
qed

lemma smartTruncate_listitems_aux:
  assumes "\<forall>l \<in> set pre. \<not> tracked l" "length blocks = 20" "\<forall>b \<in> set blocks. item_block d b"
    "\<forall>l \<in> set post. \<not> tracked l" "post = [] \<or> indentLevel (hd post) \<le> d"
    "\<forall>l \<in> set (pre @ concat blocks @ post). 10 \<notin> set l"
  shows "\<exists>note. is_ref_note note \<and>
     smartTruncate 5 (join_lines (pre @ concat blocks @ post)) =
     join_lines (pre @ concat (take 5 blocks) @
       [replicate (2 * d) 32 @ js ''- text '' @ 34 # js ''... and 15 more listitems'' @ note @ [34]] @
       post)"
proof -
  let ?k = "trackerKey d (js ''listitem'')"
  let ?K = "take 5 blocks" and ?S = "drop 5 blocks"
  have KS: "blocks = ?K @ ?S" by simp
  have lK: "length ?K = 5" and lS: "length ?S = 15" using assms(2) by simp_all
  have bK: "\<forall>b \<in> set ?K. item_block d b" using assms(3) by (auto dest: in_set_takeD)
  have bS: "\<forall>b \<in> set ?S. item_block d b" using assms(3) by (auto dest: in_set_dropD)
  obtain b6 S' where S: "?S = b6 # S'" using lS by (cases ?S) auto
  obtain item kids where b: "b6 = item # kids" "has_role (js ''listitem'') item" "indentLevel item = d"
    "list_all (\<lambda>k. indentLevel k > d) kids" "\<forall>k \<in> set kids. \<not> tracked k"
    using bS S block_split [of d b6] by force
  have bS': "\<forall>b \<in> set S'. item_block d b" using bS S by simp
  have ne: "pre @ concat blocks @ post \<noteq> []"
    using assms(2) b(1) S KS by (metis append_is_Nil_conv concat.simps(2) list.distinct(1) concat_append)
  have sl: "split_lines (join_lines (pre @ concat blocks @ post)) = pre @ concat blocks @ post"
    by (rule split_join_lines [OF ne assms(6)])
  let ?rest6 = "kids @ concat S' @ post"
  have cnt: "countSiblings (concat ?S @ post) (js ''listitem'') = 15"
    using countSiblings_blocks [OF bS _ assms(4)] lS S by simp
  have sm_ls: "item # ?rest6 = concat ?S @ post" by (simp add: S b(1))
  obtain nt where nt: "is_ref_note nt"
    "summaryLine (item # ?rest6) (js ''listitem'') =
       replicate (2 * d) 32 @ js ''- text '' @ 34 # js ''... and 15 more listitems'' @ nt @ [34]"
    using summaryLine_form [of "item # ?rest6" d] cnt b(3) unfolding sm_ls [symmetric] by auto
  let ?tr0 = "(\<lambda>k. 0) :: jsstring \<Rightarrow> nat"
  let ?tr1 = "?tr0(?k := ?tr0 ?k + length ?K)"
  let ?tr2 = "?tr1(?k := ?tr1 ?k + 1)"
  have "smartTruncate_loop 5 ?tr0 [] (pre @ concat blocks @ post) =
        smartTruncate_loop 5 ?tr0 ([] @ pre) (concat blocks @ post)"
    by (rule loop_untracked [OF assms(1)])
  also have "\<dots> = smartTruncate_loop 5 ?tr0 pre (concat ?K @ (concat ?S @ post))"
    by (metis KS append_Nil append_assoc concat_append)
  also have "\<dots> = smartTruncate_loop 5 ?tr1 (pre @ concat ?K) (concat ?S @ post)"
    using lK by (intro keep_blocks [OF bK]) simp
  also have "\<dots> = smartTruncate_loop 5 ?tr1 (pre @ concat ?K) (item # ?rest6)"
    by (simp add: sm_ls)
  also have "\<dots> = smartTruncate_loop 5 ?tr2
       ((pre @ concat ?K) @ [summaryLine (item # ?rest6) (js ''listitem'')]) (concat S' @ post)"
  proof -
    have c6: "\<not> ?tr1 ?k + 1 \<le> 5" "?tr1 ?k + 1 = 5 + 1"
      using lK by simp_all
    have nx6: "after_subtree d ?rest6 = concat S' @ post"
      by (rule after_subtree_kids [OF b(4) blocks_head [OF bS' assms(5)]])
    show ?thesis
      by (simp only: loop_item [OF b(2,3)] nx6 c6(2)) simp
  qed
  also have "\<dots> = smartTruncate_loop 5 (?tr2(?k := ?tr2 ?k + length S'))
       ((pre @ concat ?K) @ [summaryLine (item # ?rest6) (js ''listitem'')]) post"
    using lK by (intro skip_blocks [OF bS' _ assms(5)]) simp
  also have "\<dots> = smartTruncate_loop 5 (?tr2(?k := ?tr2 ?k + length S'))
       (((pre @ concat ?K) @ [summaryLine (item # ?rest6) (js ''listitem'')]) @ post) []"
    using loop_untracked [OF assms(4), of 5 _ _ "[]"] by simp
  finally have "smartTruncate_loop 5 ?tr0 [] (pre @ concat blocks @ post) =
      pre @ concat ?K @ [summaryLine (item # ?rest6) (js ''listitem'')] @ post"
    by (simp add: smartTruncate_loop.simps)
  then have "smartTruncate 5 (join_lines (pre @ concat blocks @ post)) =
     join_lines (pre @ concat ?K @ [summaryLine (item # ?rest6) (js ''listitem'')] @ post)"
    unfolding smartTruncate_def sl by simp
  then show ?thesis unfolding nt(2) using nt(1) by blast
qed

text \<open>
  Claim C9, for an outline in which the 20 list items are the only lines that
  \<open>smartTruncate\<close> counts: any lines \<open>pre\<close> that are no listitem, row or article; then 20
  blocks, each a listitem at indent \<open>d\<close> with a subtree of deeper lines that holds no
  listitem, row or article; then lines \<open>post\<close>, none of them a listitem, row or article,
  the first of which is not indented deeper than \<open>d\<close>.  The result is \<open>pre\<close>, the first
  five blocks, one summary line \<open>- text "... and 15 more listitems"\<close> at the indent of the
  items, with the optional note about hidden references, and \<open>post\<close>; the other 15
  blocks are not in it.
\<close>

theorem smartTruncate_listitems:
  assumes "\<forall>l \<in> set pre. \<not> tracked l" "length blocks = 20" "\<forall>b \<in> set blocks. item_block d b"
    "\<forall>l \<in> set post. \<not> tracked l" "post = [] \<or> indentLevel (hd post) \<le> d"
    "\<forall>l \<in> set (pre @ concat blocks @ post). 10 \<notin> set l"
  shows "\<exists>n. is_ref_note n \<and>
     smartTruncate 5 (join_lines (pre @ concat blocks @ post)) =
     join_lines (pre @ concat (take 5 blocks) @
       [replicate (2 * d) 32 @ js ''- text '' @ 34 # js ''... and 15 more listitems'' @ n @ [34]] @
       post)"
  using assms by (rule smartTruncate_listitems_aux)

lemma s6_item_blocks: "\<forall>b \<in> set s6_blocks. item_block (Suc 0) b"
proof -
  have a: "item_block (Suc 0)
      [js ''  - listitem'', js ''    - link '' @ 34 # js ''Open'' @ 34 # js '' [ref=e2]'']"
    unfolding item_block_def tracked_def
    by (simp only: ev_base string_ev line_ev smart_ev cong: ev_cong)
  have b: "item_block (Suc 0) [js ''  - listitem '' @ 34 # js ''More'' @ 34 # js '' [ref=e3]'']"
    unfolding item_block_def tracked_def
    by (simp only: ev_base string_ev line_ev smart_ev cong: ev_cong)
  show ?thesis
    unfolding s6_blocks_def using a b by auto
qed

theorem smartTruncate_listitems_witness:
  "list_all (\<lambda>l. \<not> tracked l) s6_pre \<and> length s6_blocks = 20 \<and>
   list_all (item_block (Suc 0)) s6_blocks \<and> list_all (\<lambda>l. \<not> tracked l) s6_post \<and>
   (s6_post = [] \<or> indentLevel (hd s6_post) \<le> Suc 0) \<and>
   list_all (\<lambda>l. 10 \<notin> set l) (s6_pre @ concat s6_blocks @ s6_post) \<and>
   (\<exists>n. is_ref_note n \<and>
     smartTruncate 5 (join_lines (s6_pre @ concat s6_blocks @ s6_post)) =
     join_lines (s6_pre @ concat (take 5 s6_blocks) @
       [replicate (2 * Suc 0) 32 @ js ''- text '' @ 34 # js ''... and 15 more listitems'' @ n @ [34]] @
       s6_post))"
proof -
  have h1: "\<forall>l \<in> set s6_pre. \<not> tracked l"
    unfolding s6_pre_def tracked_def
    by (simp only: ev_base string_ev line_ev smart_ev cong: ev_cong)
  have h2: "length s6_blocks = 20"
    by (simp add: s6_blocks_def)
  have h4: "\<forall>l \<in> set s6_post. \<not> tracked l"
    unfolding s6_post_def tracked_def
    by (simp only: ev_base string_ev line_ev smart_ev cong: ev_cong)
  have h5: "s6_post = [] \<or> indentLevel (hd s6_post) \<le> Suc 0"
    unfolding s6_post_def
    by (simp only: ev_base string_ev line_ev cong: ev_cong)
  have h6: "\<forall>l \<in> set (s6_pre @ concat s6_blocks @ s6_post). 10 \<notin> set l"
    by (auto simp add: s6_pre_def s6_blocks_def s6_post_def)
  show ?thesis
    unfolding list_all_iff
    using h1 h2 s6_item_blocks h4 h5 h6
      smartTruncate_listitems [OF h1 h2 s6_item_blocks h4 h5 h6]
    by blast
qed

text \<open>
  Claim C9 as stated fails when the subtree of a kept item holds lines that
  \<open>smartTruncate\<close> counts as well.  In a list of 20 items whose first item holds six rows,
  the sixth row is replaced by a summary line of its own: the first item is not output
  with its subtree, and the output has two summary lines.
\<close>

lemmas count_ev = numeral_One le_zero_eq

lemma replicate_numeral: "replicate (numeral k) x = x # replicate (pred_numeral k) x"
  by (simp add: numeral_eq_Suc)

lemma s6_nested_lines:
  "s6_nested =
     [js ''- list'', js ''  - listitem'', js ''    - row'', js ''    - row'', js ''    - row'',
      js ''    - row'', js ''    - row'', js ''    - row'', js ''  - listitem'', js ''  - listitem'',
      js ''  - listitem'', js ''  - listitem'', js ''  - listitem'', js ''  - listitem'',
      js ''  - listitem'', js ''  - listitem'', js ''  - listitem'', js ''  - listitem'',
      js ''  - listitem'', js ''  - listitem'', js ''  - listitem'', js ''  - listitem'',
      js ''  - listitem'', js ''  - listitem'', js ''  - listitem'', js ''  - listitem'',
      js ''  - listitem'']"
  by (simp add: s6_nested_def replicate_numeral)

lemma show_nat_15:
  "show_nat (Suc (Suc (Suc (Suc (Suc (Suc (Suc (Suc (Suc (Suc (Suc (Suc (Suc (Suc (Suc
     0))))))))))))))) = [49, 53]"
proof -
  have e: "Suc (Suc (Suc (Suc (Suc (Suc (Suc (Suc (Suc (Suc (Suc (Suc (Suc (Suc (Suc
     0)))))))))))))) = 15"
    by simp
  have "show_nat 15 = [49, 53]"
    by (simp add: show_nat.simps)
  then show ?thesis
    by (simp only: e)
qed

theorem smartTruncate_listitems_counterexample:
  "smartTruncate 5 (join_lines s6_nested) =
     join_lines
       [js ''- list'', js ''  - listitem'', js ''    - row'', js ''    - row'', js ''    - row'',
        js ''    - row'', js ''    - row'',
        js ''    - text '' @ 34 # js ''... and 1 more rows'' @ [34],
        js ''  - listitem'', js ''  - listitem'', js ''  - listitem'', js ''  - listitem'',
        js ''  - text '' @ 34 # js ''... and 15 more listitems'' @ [34]]"
  unfolding s6_nested_lines
  by (simp only: all_ev count_ev show_nat_15 cong: ev_cong)

section \<open>Reference closure of the outline builder\<close>

lemma starts_with_sep: "c \<notin> set p \<Longrightarrow> starts_with p (a @ c # b) = starts_with p a"
  by (induction p a rule: starts_with.induct) auto

lemma takeWhile_sep: "\<not> P c \<Longrightarrow> takeWhile P (d @ c # b) = takeWhile P d"
  by (induction d) auto

lemma dropWhile_sep: "\<not> P c \<Longrightarrow> dropWhile P (d @ c # b) = dropWhile P d @ c # b"
  by (induction d) auto

lemma starts_with_length: "starts_with p a \<Longrightarrow> length p \<le> length a"
  by (induction p a rule: starts_with.induct) auto

lemma ref_tag_sep:
  assumes "\<not> tag_char c"
  shows "ref_tag (a @ c # b) = map_option (\<lambda>(r, rest). (r, rest @ c # b)) (ref_tag a)"
proof -
  have c1: "c \<notin> set (js ''[ref=e'')" and c2: "c \<notin> set (js '']'')" and c3: "\<not> is_digit c"
    using assms by (auto simp add: tag_char_def)
  have s: "starts_with (js ''[ref=e'') (a @ c # b) = starts_with (js ''[ref=e'') a"
    using c1 by (rule starts_with_sep)
  show ?thesis
  proof (cases "starts_with (js ''[ref=e'') a")
    case False
    then show ?thesis
      unfolding ref_tag_def s by simp
  next
    case True
    from starts_with_length [OF True] have "6 \<le> length a"
      by simp
    then have d: "drop 6 (a @ c # b) = drop 6 a @ c # b"
      by simp
    have r: "starts_with (js '']'') (dropWhile is_digit (drop 6 a) @ c # b)
         = starts_with (js '']'') (dropWhile is_digit (drop 6 a))"
      using c2 by (rule starts_with_sep)
    have n: "starts_with (js '']'') r \<Longrightarrow> drop 1 (r @ c # b) = drop 1 r @ c # b" for r
      by (cases r) auto
    have tw: "takeWhile is_digit (drop 6 a @ c # b) = takeWhile is_digit (drop 6 a)"
      using c3 by (rule takeWhile_sep)
    have dw: "dropWhile is_digit (drop 6 a @ c # b) = dropWhile is_digit (drop 6 a) @ c # b"
      using c3 by (rule dropWhile_sep)
    show ?thesis
      unfolding ref_tag_def Let_def s d tw dw r
      using True n by (simp add: Let_def)
  qed
qed

lemma ref_tag_Nil: "ref_tag [] = None"
  by (simp add: ref_tag_def)

lemma all_refs_sep:
  assumes "\<not> tag_char c"
  shows "all_refs (a @ c # b) = all_refs a @ all_refs b"
proof (induction a rule: all_refs.induct)
  case 1
  have "ref_tag (c # b) = None"
    using ref_tag_sep [OF assms, of "[]" b] by (simp add: ref_tag_Nil)
  then show ?case by simp
next
  case (2 x xs)
  show ?case
  proof (cases "ref_tag (x # xs)")
    case None
    then have "ref_tag ((x # xs) @ c # b) = None"
      using ref_tag_sep [OF assms, of "x # xs" b] by simp
    then show ?thesis
      using None 2(1) by simp
  next
    case (Some p)
    obtain r rest where p: "p = (r, rest)" by (cases p)
    have "ref_tag ((x # xs) @ c # b) = Some (r, rest @ c # b)"
      using Some p ref_tag_sep [OF assms, of "x # xs" b] by simp
    then show ?thesis
      using Some p 2(2) by simp
  qed
qed

lemma all_refs_join_lines: "all_refs (join_lines ls) = collectRefs ls"
proof (induction ls rule: join_lines.induct)
  case 1
  show ?case by (simp add: collectRefs_def)
next
  case (2 l)
  show ?case by (simp add: collectRefs_def)
next
  case (3 l v va)
  have "\<not> tag_char 10"
    by (simp add: tag_char_def is_digit_def)
  then show ?case
    using 3 by (simp add: collectRefs_def all_refs_sep)
qed


lemma ref_tag_other: "c \<noteq> 91 \<Longrightarrow> ref_tag (c # cs) = None"
  by (simp add: ref_tag_def)

lemma all_refs_no_bracket: "91 \<notin> set p \<Longrightarrow> all_refs (p @ xs) = all_refs xs"
  by (induction p) (simp_all add: ref_tag_other)

lemma takeWhile_all: "list_all P xs \<Longrightarrow> takeWhile P xs = xs"
  by (induction xs) auto

lemma dropWhile_all: "list_all P xs \<Longrightarrow> dropWhile P xs = []"
  by (induction xs) auto

lemma ref_tag_tag:
  assumes "ds \<noteq> []" "list_all is_digit ds"
  shows "ref_tag (js ''[ref=e'' @ ds @ 93 # xs) = Some (101 # ds, xs)"
proof -
  have n: "\<not> is_digit 93"
    by (simp add: is_digit_def)
  have tw: "takeWhile is_digit (ds @ 93 # xs) = ds"
    using takeWhile_sep [of is_digit 93 ds xs] n takeWhile_all [OF assms(2)] by simp
  have dw: "dropWhile is_digit (ds @ 93 # xs) = 93 # xs"
    using dropWhile_sep [of is_digit 93 ds xs] n dropWhile_all [OF assms(2)] by simp
  show ?thesis
    using assms(1) by (simp add: ref_tag_def tw dw)
qed

lemma show_nat_digits: "show_nat n \<noteq> [] \<and> list_all is_digit (show_nat n)"
proof (induction n rule: show_nat.induct)
  case (1 n)
  show ?case
  proof (cases "n < 10")
    case True
    then show ?thesis
      by (subst (1 2) show_nat.simps) (simp add: is_digit_def)
  next
    case False
    have "n mod 10 < 10"
      by simp
    then have "is_digit (48 + n mod 10)"
      unfolding is_digit_def by linarith
    then show ?thesis
      using False 1 by (subst (1 2) show_nat.simps) simp
  qed
qed

lemma all_refs_tag: "all_refs (js '' [ref='' @ (101 # show_nat n) @ js '']'') = [101 # show_nat n]"
proof -
  have "ref_tag (js ''[ref=e'' @ show_nat n @ 93 # []) = Some (101 # show_nat n, [])"
    using show_nat_digits [of n] by (intro ref_tag_tag) simp_all
  then show ?thesis
    by (simp add: ref_tag_other)
qed

lemma bracket_other: "c \<noteq> 114 \<Longrightarrow> ref_tag (91 # c # cs) = None"
  by (simp add: ref_tag_def)

lemma ROLE_MAP_plain: "\<forall>(k, v) \<in> set ROLE_MAP. 91 \<notin> set (js v)"
  by (simp add: ROLE_MAP_def)

lemma PROTO_ROLES_plain: "\<forall>(k, v) \<in> set PROTO_ROLES. \<forall>xs. all_refs (js v @ xs) = all_refs xs"
  by (simp add: PROTO_ROLES_def ref_tag_other bracket_other)

lemma mapRole_plain:
  assumes "mapRole rl = Some r"
  shows "all_refs (r @ xs) = all_refs xs"
proof -
  have "map_option js (map_of (map (\<lambda>(k, v). (js k, v)) (ROLE_MAP @ PROTO_ROLES)) rl) = Some r"
    using assms unfolding mapRole_def .
  then obtain v where v: "map_of (map (\<lambda>(k, v). (js k, v)) (ROLE_MAP @ PROTO_ROLES)) rl = Some v"
    and r: "r = js v"
    unfolding map_option_eq_Some by blast
  have "\<exists>k. (k, v) \<in> set (ROLE_MAP @ PROTO_ROLES)"
    using map_of_SomeD [OF v] by auto
  then consider k where "(k, v) \<in> set ROLE_MAP" | k where "(k, v) \<in> set PROTO_ROLES"
    by auto
  then show ?thesis
  proof cases
    case 1
    then have "91 \<notin> set (js v)"
      using ROLE_MAP_plain by blast
    then show ?thesis
      unfolding r by (rule all_refs_no_bracket)
  next
    case 2
    then show ?thesis
      unfolding r using PROTO_ROLES_plain by blast
  qed
qed

lemma map_keys_overwrite:
  "map fst (map (\<lambda>(k', v'). if k' = k then (k', v) else (k', v')) m) = map fst m"
  by (induction m) auto

lemma map_keys_map_set: "set (map_keys (map_set m k v)) = insert k (set (map_keys m))"
proof (cases "k \<in> fst ` set m")
  case True
  then have "map_keys (map_set m k v) = map fst m"
    unfolding map_keys_def map_set_def by (simp only: if_True map_keys_overwrite)
  then show ?thesis
    using True by (auto simp add: map_keys_def)
next
  case False
  then show ?thesis
    by (simp add: map_keys_def map_set_def)
qed

lemma all_refs_line:
  assumes "\<And>xs. all_refs (r @ xs) = all_refs xs" "all_refs nam = []"
  shows "all_refs (replicate (2 * depth) 32 @ js ''- '' @ r @
           (if nam \<noteq> [] then 32 # 34 # nam @ [34] else []) @ rf) = all_refs rf"
proof -
  have a: "all_refs (replicate (2 * depth) 32 @ js ''- '' @ r @ xs) = all_refs xs" for xs
  proof -
    have "all_refs ((replicate (2 * depth) 32 @ js ''- '') @ r @ xs) = all_refs (r @ xs)"
      by (rule all_refs_no_bracket) simp
    then show ?thesis
      using assms(1) by simp
  qed
  have q: "\<not> tag_char 34"
    by (simp add: tag_char_def is_digit_def)
  have "all_refs ((32 # 34 # nam) @ 34 # rf) = all_refs (32 # 34 # nam) @ all_refs rf"
    using q by (rule all_refs_sep)
  moreover have "all_refs ([32, 34] @ nam) = all_refs nam"
    by (rule all_refs_no_bracket) simp
  ultimately have "all_refs (32 # 34 # nam @ 34 # rf) = all_refs rf"
    using assms(2) by simp
  then show ?thesis
    unfolding a by simp
qed

lemma emitNode_closed:
  assumes "closed_state st"
    "is_interactive r \<or> (name_value node \<noteq> [] \<and> r \<noteq> js ''generic'' \<and> r \<noteq> js ''text'')
       \<Longrightarrow> \<exists>b. backendDOMNodeId node = Some b \<and> b \<noteq> 0"
    "all_refs (name_value node) = []" "\<And>xs. all_refs (r @ xs) = all_refs xs"
  shows "closed_state (emitNode node r depth st)"
proof -
  let ?hasRef = "is_interactive r \<or> (name_value node \<noteq> [] \<and> r \<noteq> js ''generic'' \<and> r \<noteq> js ''text'')"
  let ?refId = "101 # show_nat (refCounter st + 1)"
  let ?rf = "if ?hasRef then js '' [ref='' @ ?refId @ js '']'' else []"
  let ?line = "replicate (2 * depth) 32 @ js ''- '' @ r @
      (if name_value node \<noteq> [] then 32 # 34 # name_value node @ [34] else []) @ ?rf"
  have l: "lines (emitNode node r depth st) = lines st @ [?line]"
    by (simp add: emitNode_def Let_def)
  have m: "set (map_keys (refMap st)) \<union> (if ?hasRef then {?refId} else {}) \<subseteq>
      set (map_keys (refMap (emitNode node r depth st)))"
  proof (cases ?hasRef)
    case True
    then obtain b where b: "backendDOMNodeId node = Some b" "b \<noteq> 0"
      using assms(2) by blast
    have "refMap (emitNode node r depth st) = map_set (refMap st) ?refId b"
      using True b by (simp add: emitNode_def Let_def)
    then show ?thesis
      using True by (simp add: map_keys_map_set subset_insertI)
  next
    case False
    then have "refMap (emitNode node r depth st) = refMap st"
      by (cases "backendDOMNodeId node") (auto simp add: emitNode_def Let_def)
    then show ?thesis
      using False by auto
  qed
  have "all_refs ?line = all_refs ?rf"
    using assms(4,3) by (rule all_refs_line)
  also have "\<dots> = (if ?hasRef then [?refId] else [])"
    using all_refs_tag [of "refCounter st + 1"] by simp
  finally have r: "all_refs ?line = (if ?hasRef then [?refId] else [])" .
  have c: "collectRefs (lines st @ [?line]) = collectRefs (lines st) @ all_refs ?line"
    by (simp add: collectRefs_def)
  have "set (collectRefs (lines st @ [?line])) \<subseteq>
      set (map_keys (refMap st)) \<union> (if ?hasRef then {?refId} else {})"
    unfolding c r using assms(1) by (auto simp add: closed_state_def)
  then show ?thesis
    unfolding closed_state_def l using m by blast
qed

lemma find_holds: "find P xs = Some x \<Longrightarrow> P x"
  by (induction xs) (auto split: if_splits)

lemma nodeMap_id: "nodeMap nodes nid = Some node \<Longrightarrow> nodeId node = nid"
  using find_holds [of "\<lambda>n. nodeId n = nid" "rev nodes" node] by (simp add: nodeMap_def)

lemma nodeMap_in: "nodeMap nodes nid = Some node \<Longrightarrow> node \<in> set nodes"
  using find_in [of _ "rev nodes" node] by (simp add: nodeMap_def)

lemma render_closed:
  shows "plain_nodes nodes \<Longrightarrow> closed_state st \<Longrightarrow>
      renderNode fuel nodes nid depth st = Some st' \<Longrightarrow> closed_state st'"
    and "plain_nodes nodes \<Longrightarrow> closed_state st \<Longrightarrow>
      renderNodes fuel nodes cids depth st = Some st' \<Longrightarrow> closed_state st'"
proof (induction fuel nodes nid depth st and fuel nodes cids depth st arbitrary: st' and st'
    rule: renderNode_renderNodes.induct)
  case (1 nodes nid depth st)
  from 1(3) show ?case by simp
next
  case (2 fuel nodes nid depth st)
  note ih = "2.IH" and pl = 2(4) and cl = 2(5) and run = 2(6)
  show ?case
  proof (cases "nodeMap nodes nid")
    case None
    then have "st' = st"
      using run by simp
    then show ?thesis
      using cl by simp
  next
    case (Some node)
    have nd: "node \<in> set nodes"
      using Some by (rule nodeMap_in)
    have nid: "nodeId node = nid"
      using Some by (rule nodeMap_id)
    have "(bears_ref nodes node \<longrightarrow> (\<exists>b. backendDOMNodeId node = Some b \<and> b \<noteq> 0)) \<and>
        (prints_line nodes node \<longrightarrow> all_refs (name_value node) = [])"
      using pl nd unfolding plain_nodes_def by (rule bspec)
    then have br: "bears_ref nodes node \<Longrightarrow> \<exists>b. backendDOMNodeId node = Some b \<and> b \<noteq> 0"
      and pr: "prints_line nodes node \<Longrightarrow> all_refs (name_value node) = []"
      by blast+
    let ?rl = "role_value node" and ?ch = "childMap nodes nid"
    show ?thesis
    proof (cases "?rl = js ''InlineTextBox'' \<or> ?rl = js ''LineBreak''")
      case True
      then have "st' = st"
        using run Some by (simp add: Let_def)
      then show ?thesis
        using cl by simp
    next
      case inl: False
      show ?thesis
      proof (cases "?rl \<in> set SKIP_ROLES \<or> ?rl = js ''none''")
        case True
        then have "renderNodes fuel nodes ?ch depth st = Some st'"
          using run Some inl by (simp add: Let_def)
        with ih(1) [OF Some refl refl inl True pl cl] show ?thesis .
      next
        case skip: False
        show ?thesis
        proof (cases "mapRole ?rl")
          case None
          then have "renderNodes fuel nodes ?ch depth st = Some st'"
            using run Some inl skip by (simp add: Let_def)
          with ih(2) [OF Some refl refl inl skip None pl cl] show ?thesis .
        next
          case mapped: (Some r)
          show ?thesis
          proof (cases "ignored node \<and> ?ch = []")
            case True
            then have "st' = st"
              using run Some inl skip mapped by (simp add: Let_def)
            then show ?thesis
              using cl by simp
          next
            case False
            then have r: "renderNodes fuel nodes ?ch (depth + 1) (emitNode node r depth st) = Some st'"
              using run Some inl skip mapped by (cases "ignored node") (simp_all add: Let_def)
            have p: "prints_line nodes node"
              unfolding prints_line_def nid using skip mapped False by simp
            have "closed_state (emitNode node r depth st)"
            proof (rule emitNode_closed [OF cl])
              assume "is_interactive r \<or>
                (name_value node \<noteq> [] \<and> r \<noteq> js ''generic'' \<and> r \<noteq> js ''text'')"
              then have "bears_ref nodes node"
                unfolding bears_ref_def using p mapped by simp
              then show "\<exists>b. backendDOMNodeId node = Some b \<and> b \<noteq> 0"
                by (rule br)
            next
              show "all_refs (name_value node) = []"
                using p by (rule pr)
            next
              show "all_refs (r @ xs) = all_refs xs" for xs
                using mapped by (rule mapRole_plain)
            qed
            with ih(3) [OF Some refl refl inl skip mapped False pl] r show ?thesis
              by blast
          qed
        qed
      qed
    qed
  qed
next
  case (3 fuel nodes depth st)
  from 3(2,3) show ?case by simp
next
  case (4 fuel nodes cid cids depth st)
  show ?case
  proof (cases "renderNode fuel nodes cid depth st")
    case None
    then show ?thesis
      using 4(5) by simp
  next
    case (Some st1)
    have c1: "closed_state st1"
      using 4(3,4) Some by (rule 4(1))
    have "renderNodes fuel nodes cids depth st1 = Some st'"
      using 4(5) Some by simp
    with 4(2) [OF Some 4(3) c1] show ?thesis .
  qed
qed

lemma axTreeToSnapshot_closed_aux:
  assumes "plain_nodes nodes" "axTreeToSnapshot fuel nodes = Some (s, m)"
  shows "set (all_refs s) \<subseteq> set (map_keys m)"
proof (cases nodes)
  case Nil
  then have "s = []" "m = []"
    using assms(2) by (simp_all add: axTreeToSnapshot_def)
  then show ?thesis by simp
next
  case (Cons n0 ns)
  let ?root = "case find (\<lambda>n. parentId n = None) nodes of Some r \<Rightarrow> r | None \<Rightarrow> n0"
  let ?st0 = "\<lparr>refCounter = 0, refMap = [], lines = []\<rparr>"
  obtain st where st: "renderNodes fuel nodes (childMap nodes (nodeId ?root)) 0 ?st0 = Some st"
    and s: "s = join_lines (lines st)" and m: "m = refMap st"
    using assms(2) unfolding axTreeToSnapshot_def Cons
    by (simp add: Let_def split: option.splits)
  have "closed_state ?st0"
    by (simp add: closed_state_def collectRefs_def)
  with assms(1) have "closed_state st"
    using st by (rule render_closed(2))
  then show ?thesis
    unfolding s m by (simp add: closed_state_def all_refs_join_lines)
qed

lemma renderNode_leaf:
  assumes "nodeMap nodes nid = Some node" "childMap nodes nid = []"
    "mapRole (role_value node) = Some r" "role_value node \<notin> set SKIP_ROLES"
    "\<not> ignored node"
  shows "renderNode (Suc f) nodes nid d st = Some (emitNode node r d st)"
  using assms by (simp add: Let_def SKIP_ROLES_def)

lemma renderNode_inline:
  assumes "nodeMap nodes nid = Some node" "role_value node = js ''InlineTextBox''"
  shows "renderNode (Suc f) nodes nid d st = Some st"
  using assms by (simp add: Let_def)

lemma mapRole_heading: "mapRole (js ''heading'') = Some (js ''heading'')"
  by (simp add: mapRole_def ROLE_MAP_def)

lemma mapRole_button: "mapRole (js ''button'') = Some (js ''button'')"
  by (simp add: mapRole_def ROLE_MAP_def)

lemma mapRole_skipped: "mapRole (js ''RootWebArea'') = None" "mapRole (js ''InlineTextBox'') = None"
  by (simp_all add: mapRole_def ROLE_MAP_def PROTO_ROLES_def)

lemma axTreeToSnapshot_rooted:
  assumes "find (\<lambda>n. parentId n = None) nodes = Some r0"
    "renderNodes fuel nodes (childMap nodes (nodeId r0)) 0
       \<lparr>refCounter = 0, refMap = [], lines = []\<rparr> = Some st"
  shows "axTreeToSnapshot fuel nodes = Some (join_lines (lines st), refMap st)"
  using assms by (cases nodes) (simp_all add: axTreeToSnapshot_def)

lemmas c1_defs =
  c1_nodes_def c1_detached_def c1_named_def c1_root_def c1_heading_def c1_button_def
  c1_inline_def c1_orphan_def c1_tagged_def

lemma c1_nodes_run:
  \<open>axTreeToSnapshot 3 c1_nodes =
     Some (js ''- heading "Shop" [ref=e1]'' @ 10 # js ''- button "Go" [ref=e2]'',
           [(js ''e1'', 12), (js ''e2'', 13)])\<close>
proof -
  let ?st0 = "\<lparr>refCounter = 0, refMap = [], lines = []\<rparr>"
  have f: "(3::nat) = Suc 2"
    by simp
  have rt: "find (\<lambda>n. parentId n = None) c1_nodes = Some c1_root"
    by (simp add: c1_defs)
  have ch: "childMap c1_nodes (nodeId c1_root) = [js ''2'', js ''3'', js ''4'']"
    by (simp add: childMap_def c1_defs)
  have r2: "renderNode 3 c1_nodes (js ''2'') 0 st =
      Some (emitNode c1_heading (js ''heading'') 0 st)" for st
    unfolding f
    by (rule renderNode_leaf)
       (use mapRole_heading in \<open>simp_all add: nodeMap_def childMap_def SKIP_ROLES_def c1_defs\<close>)
  have r3: "renderNode 3 c1_nodes (js ''3'') 0 st =
      Some (emitNode c1_button (js ''button'') 0 st)" for st
    unfolding f
    by (rule renderNode_leaf)
       (use mapRole_button in \<open>simp_all add: nodeMap_def childMap_def SKIP_ROLES_def c1_defs\<close>)
  have r4: "renderNode 3 c1_nodes (js ''4'') 0 st = Some st" for st
    unfolding f
    by (rule renderNode_inline [of _ _ c1_inline]) (simp_all add: nodeMap_def c1_defs)
  have e: \<open>emitNode c1_button (js ''button'') 0 (emitNode c1_heading (js ''heading'') 0 ?st0) =
      \<lparr>refCounter = 2, refMap = [(js ''e1'', 12), (js ''e2'', 13)],
        lines = [js ''- heading "Shop" [ref=e1]'', js ''- button "Go" [ref=e2]'']\<rparr>\<close>
    by (simp add: emitNode_def c1_heading_def c1_button_def is_interactive_def
        INTERACTIVE_ROLES_def map_set_def show_nat_digit Let_def)
  have "renderNodes 3 c1_nodes (childMap c1_nodes (nodeId c1_root)) 0 ?st0 =
      Some (emitNode c1_button (js ''button'') 0 (emitNode c1_heading (js ''heading'') 0 ?st0))"
    unfolding ch by (simp only: renderNodes.simps r2 r3 r4 option.case)
  with rt have "axTreeToSnapshot 3 c1_nodes =
      Some (join_lines (lines (emitNode c1_button (js ''button'') 0
              (emitNode c1_heading (js ''heading'') 0 ?st0))),
            refMap (emitNode c1_button (js ''button'') 0
              (emitNode c1_heading (js ''heading'') 0 ?st0)))"
    by (rule axTreeToSnapshot_rooted)
  then show ?thesis
    unfolding e by simp
qed

lemma c1_detached_run:
  \<open>axTreeToSnapshot 3 c1_detached = Some (js ''- button "Go" [ref=e1]'', [])\<close>
proof -
  let ?st0 = "\<lparr>refCounter = 0, refMap = [], lines = []\<rparr>"
  have f: "(3::nat) = Suc 2"
    by simp
  have rt: "find (\<lambda>n. parentId n = None) c1_detached = Some c1_root"
    by (simp add: c1_defs)
  have ch: "childMap c1_detached (nodeId c1_root) = [js ''2'']"
    by (simp add: childMap_def c1_defs)
  have r2: "renderNode 3 c1_detached (js ''2'') 0 st =
      Some (emitNode c1_orphan (js ''button'') 0 st)" for st
    unfolding f
    by (rule renderNode_leaf)
       (use mapRole_button in \<open>simp_all add: nodeMap_def childMap_def SKIP_ROLES_def c1_defs\<close>)
  have e: \<open>emitNode c1_orphan (js ''button'') 0 ?st0 =
      \<lparr>refCounter = 1, refMap = [], lines = [js ''- button "Go" [ref=e1]'']\<rparr>\<close>
    by (simp add: emitNode_def c1_orphan_def is_interactive_def
        INTERACTIVE_ROLES_def map_set_def show_nat_digit Let_def)
  have "renderNodes 3 c1_detached (childMap c1_detached (nodeId c1_root)) 0 ?st0 =
      Some (emitNode c1_orphan (js ''button'') 0 ?st0)"
    unfolding ch by (simp only: renderNodes.simps r2 option.case)
  with rt have "axTreeToSnapshot 3 c1_detached =
      Some (join_lines (lines (emitNode c1_orphan (js ''button'') 0 ?st0)),
            refMap (emitNode c1_orphan (js ''button'') 0 ?st0))"
    by (rule axTreeToSnapshot_rooted)
  then show ?thesis
    unfolding e by simp
qed

text \<open>
  The name of a node is printed as it is.  A heading whose name reads \<open>[ref=e9]\<close> gets
  the reference \<open>e1\<close>, and its line shows \<open>e9\<close> as well, which is no key of the handle
  map: hence the condition on the names in the theorem below.
\<close>

lemma axTreeToSnapshot_name_tag:
  \<open>axTreeToSnapshot 3 c1_named =
     Some (js ''- heading "[ref=e9]" [ref=e1]'', [(js ''e1'', 12)]) \<and>
   all_refs (js ''- heading "[ref=e9]" [ref=e1]'') = [js ''e9'', js ''e1'']\<close>
proof -
  let ?st0 = "\<lparr>refCounter = 0, refMap = [], lines = []\<rparr>"
  have f: "(3::nat) = Suc 2"
    by simp
  have rt: "find (\<lambda>n. parentId n = None) c1_named = Some c1_root"
    by (simp add: c1_defs)
  have ch: "childMap c1_named (nodeId c1_root) = [js ''2'']"
    by (simp add: childMap_def c1_defs)
  have r2: "renderNode 3 c1_named (js ''2'') 0 st =
      Some (emitNode c1_tagged (js ''heading'') 0 st)" for st
    unfolding f
    by (rule renderNode_leaf)
       (use mapRole_heading in \<open>simp_all add: nodeMap_def childMap_def SKIP_ROLES_def c1_defs\<close>)
  have e: \<open>emitNode c1_tagged (js ''heading'') 0 ?st0 =
      \<lparr>refCounter = 1, refMap = [(js ''e1'', 12)],
        lines = [js ''- heading "[ref=e9]" [ref=e1]'']\<rparr>\<close>
    by (simp add: emitNode_def c1_tagged_def is_interactive_def
        INTERACTIVE_ROLES_def map_set_def show_nat_digit Let_def)
  have "renderNodes 3 c1_named (childMap c1_named (nodeId c1_root)) 0 ?st0 =
      Some (emitNode c1_tagged (js ''heading'') 0 ?st0)"
    unfolding ch by (simp only: renderNodes.simps r2 option.case)
  with rt have "axTreeToSnapshot 3 c1_named =
      Some (join_lines (lines (emitNode c1_tagged (js ''heading'') 0 ?st0)),
            refMap (emitNode c1_tagged (js ''heading'') 0 ?st0))"
    by (rule axTreeToSnapshot_rooted)
  then have r: \<open>axTreeToSnapshot 3 c1_named =
      Some (js ''- heading "[ref=e9]" [ref=e1]'', [(js ''e1'', 12)])\<close>
    unfolding e by simp
  have a: \<open>all_refs (js ''- heading "[ref=e9]" [ref=e1]'') = [js ''e9'', js ''e1'']\<close>
    by (simp add: ref_tag_def is_digit_def)
  show ?thesis
    using r a by (rule conjI)
qed

text \<open>
  Claim C1, for a list of nodes in which every node that gets a reference has a backend
  DOM node identifier (other than 0), and no node that gets a line has a name holding
  text of the form \<open>[ref=e<n>]\<close>: every reference that stands in the outline is a key of
  the handle map returned with it.  Nodes that get no reference (the root, skipped roles,
  unnamed containers) need no identifier.
\<close>

theorem axTreeToSnapshot_refs_closed:
  assumes "\<forall>n \<in> set nodes. bears_ref nodes n \<longrightarrow> (\<exists>b. backendDOMNodeId n = Some b \<and> b \<noteq> 0)"
    and "\<forall>n \<in> set nodes. prints_line nodes n \<longrightarrow> all_refs (name_value n) = []"
    and "axTreeToSnapshot fuel nodes = Some (s, m)"
  shows "set (all_refs s) \<subseteq> set (map_keys m)"
proof -
  have "plain_nodes nodes"
    unfolding plain_nodes_def using assms(1,2) by blast
  then show ?thesis
    using assms(3) by (rule axTreeToSnapshot_closed_aux)
qed

lemma c1_nodes_bearing:
  "list_all (\<lambda>n. \<not> bears_ref c1_nodes n \<or> (\<exists>b. backendDOMNodeId n = Some b \<and> b \<noteq> 0)) c1_nodes"
  using mapRole_skipped
  by (simp add: bears_ref_def prints_line_def c1_defs SKIP_ROLES_def)

lemma c1_nodes_names:
  "list_all (\<lambda>n. \<not> prints_line c1_nodes n \<or> all_refs (name_value n) = []) c1_nodes"
  by (simp add: c1_defs ref_tag_other)

theorem axTreeToSnapshot_refs_closed_witness:
  \<open>list_all (\<lambda>n. \<not> bears_ref c1_nodes n \<or> (\<exists>b. backendDOMNodeId n = Some b \<and> b \<noteq> 0)) c1_nodes \<and>
   list_all (\<lambda>n. \<not> prints_line c1_nodes n \<or> all_refs (name_value n) = []) c1_nodes \<and>
   bears_ref c1_nodes c1_heading \<and> backendDOMNodeId c1_root = None \<and>
   axTreeToSnapshot 3 c1_nodes =
     Some (js ''- heading "Shop" [ref=e1]'' @ 10 # js ''- button "Go" [ref=e2]'',
           [(js ''e1'', 12), (js ''e2'', 13)]) \<and>
   set (all_refs (js ''- heading "Shop" [ref=e1]'' @ 10 # js ''- button "Go" [ref=e2]''))
     \<subseteq> set (map_keys [(js ''e1'', 12), (js ''e2'', 13)])\<close>
proof -
  have h1: "\<forall>n \<in> set c1_nodes. bears_ref c1_nodes n \<longrightarrow> (\<exists>b. backendDOMNodeId n = Some b \<and> b \<noteq> 0)"
    using c1_nodes_bearing unfolding list_all_iff by blast
  have h2: "\<forall>n \<in> set c1_nodes. prints_line c1_nodes n \<longrightarrow> all_refs (name_value n) = []"
    using c1_nodes_names unfolding list_all_iff by blast
  have b: "bears_ref c1_nodes c1_heading"
    using mapRole_heading
    by (simp add: bears_ref_def prints_line_def c1_heading_def SKIP_ROLES_def)
  have n: "backendDOMNodeId c1_root = None"
    by (simp add: c1_root_def)
  show ?thesis
    using c1_nodes_bearing c1_nodes_names b n c1_nodes_run
      axTreeToSnapshot_refs_closed [OF h1 h2 c1_nodes_run]
    by blast
qed

text \<open>
  Claim C1 as stated fails for a node that gets a reference and has no backend DOM node
  identifier: the reference is printed, and the handle map does not get it.
\<close>

theorem axTreeToSnapshot_refs_closed_counterexample:
  \<open>axTreeToSnapshot 3 c1_detached = Some (js ''- button "Go" [ref=e1]'', []) \<and>
   js ''e1'' \<in> set (all_refs (js ''- button "Go" [ref=e1]'')) \<and>
   js ''e1'' \<notin> set (map_keys [])\<close>
proof -
  have a: \<open>all_refs (js ''- button "Go" [ref=e1]'') = [js ''e1'']\<close>
    by (simp add: ref_tag_def is_digit_def)
  show ?thesis
    using c1_detached_run a by (simp add: map_keys_def)
qed

section \<open>References through the reducers\<close>

lemma no_bracket_class: "is_space c \<or> c = 45 \<or> is_word c \<Longrightarrow> c \<noteq> 91"
  by (auto simp add: is_space_def is_word_def is_digit_def)

lemma takeWhile_dropWhile_quote:
  assumes "dropWhile (\<lambda>x. x \<noteq> 34) r \<noteq> []"
  shows "r = takeWhile (\<lambda>x. x \<noteq> (34::nat)) r @ 34 # tl (dropWhile (\<lambda>x. x \<noteq> 34) r)"
proof -
  have "hd (dropWhile (\<lambda>x. x \<noteq> 34) r) = (34::nat)"
    using hd_dropWhile [OF assms] by simp
  then have "dropWhile (\<lambda>x. x \<noteq> 34) r = 34 # tl (dropWhile (\<lambda>x. x \<noteq> 34) r)"
    using assms by (cases "dropWhile (\<lambda>x. x \<noteq> 34) r") auto
  then show ?thesis
    using takeWhile_dropWhile_id [of "\<lambda>x. x \<noteq> 34" r] by simp
qed

lemma name_group_shape:
  assumes "name_group s = Some (n, rest)"
  shows "\<exists>a. s = a @ 34 # rest"
proof -
  obtain q r where d: "dropWhile is_space s = q # r" and q: "q = 34"
    and ne: "dropWhile (\<lambda>x. x \<noteq> 34) r \<noteq> []"
    and rest: "rest = tl (dropWhile (\<lambda>x. x \<noteq> 34) r)"
    using assms unfolding name_group_def
    by (auto split: if_splits list.splits)
  have "s = takeWhile is_space s @ dropWhile is_space s"
    by simp
  also have "\<dots> = takeWhile is_space s @ 34 # r"
    using d q by simp
  also have "\<dots> = (takeWhile is_space s @ 34 # takeWhile (\<lambda>x. x \<noteq> 34) r) @ 34 # rest"
    using takeWhile_dropWhile_quote [OF ne] rest by simp
  finally show ?thesis by blast
qed

lemma parseLine_shape:
  assumes "parseLine l = Some p"
  shows "\<exists>a. l = a @ suffix p \<and> (91 \<notin> set a \<or> (\<exists>b. a = b @ [34]))"
proof -
  obtain r1 where d: "dropWhile is_space l = 45 # r1"
    using assms unfolding parseLine_def
    by (auto split: list.splits if_splits)
  let ?r2 = "dropWhile is_space r1"
  let ?w = "takeWhile is_word ?r2" and ?r3 = "dropWhile is_word ?r2"
  let ?a = "takeWhile is_space l @ 45 # takeWhile is_space r1 @ ?w"
  have l: "l = ?a @ ?r3"
  proof -
    have "l = takeWhile is_space l @ dropWhile is_space l"
      by simp
    also have "\<dots> = takeWhile is_space l @ 45 # (takeWhile is_space r1 @ ?r2)"
      unfolding d by simp
    also have "?r2 = ?w @ ?r3"
      by simp
    finally show ?thesis by simp
  qed
  have a: "91 \<notin> set ?a"
  proof -
    have "\<forall>c \<in> set ?a. is_space c \<or> c = 45 \<or> is_word c"
      by (auto dest: set_takeWhileD)
    then show ?thesis
      using no_bracket_class by blast
  qed
  show ?thesis
  proof (cases "name_group ?r3")
    case None
    then have "suffix p = ?r3"
      using assms d unfolding parseLine_def
      by (auto simp add: Let_def split: if_splits)
    then show ?thesis
      using l a by metis
  next
    case (Some nr)
    obtain n rest where nr: "nr = (n, rest)" by (cases nr)
    have s: "suffix p = rest"
      using assms d Some nr unfolding parseLine_def
      by (auto simp add: Let_def split: if_splits)
    obtain b where "?r3 = b @ 34 # rest"
      using name_group_shape Some nr by blast
    then have "l = ((?a @ b) @ [34]) @ rest"
      using l by simp
    then show ?thesis
      unfolding s by blast
  qed
qed


lemma quote_sep: "\<not> tag_char 34"
  by (simp add: tag_char_def is_digit_def)

lemma suffix_refs:
  assumes "parseLine l = Some p"
  shows "set (all_refs (suffix p)) \<subseteq> set (all_refs l)"
proof -
  obtain a where l: "l = a @ suffix p" and a: "91 \<notin> set a \<or> (\<exists>b. a = b @ [34])"
    using parseLine_shape [OF assms] by blast
  from a show ?thesis
  proof
    assume "91 \<notin> set a"
    then have "all_refs (a @ suffix p) = all_refs (suffix p)"
      by (rule all_refs_no_bracket)
    then show ?thesis
      using l by simp
  next
    assume "\<exists>b. a = b @ [34]"
    then obtain b where "a = b @ [34]" by blast
    then have "l = b @ 34 # suffix p"
      using l by simp
    then have "all_refs l = all_refs b @ all_refs (suffix p)"
      by (simp only: all_refs_sep [OF quote_sep])
    then show ?thesis by simp
  qed
qed

lemma buildLine_refs: "set (all_refs sfx) \<subseteq> set (all_refs (buildLine pre rl (Some n) sfx))"
proof -
  have "buildLine pre rl (Some n) sfx = (pre @ rl @ 32 # 34 # n) @ 34 # sfx"
    by (simp add: buildLine_def)
  then have "all_refs (buildLine pre rl (Some n) sfx) =
      all_refs (pre @ rl @ 32 # 34 # n) @ all_refs sfx"
    by (simp only: all_refs_sep [OF quote_sep])
  then show ?thesis by simp
qed

lemma compressLine_refs:
  assumes "parseLine l = Some p"
  shows "set (all_refs (suffix p)) \<subseteq> set (all_refs (compressLine lower upper l))"
proof -
  have "compressLine lower upper l = l \<or> (\<exists>n. compressLine lower upper l = buildLine (prefix p) (role_of p) (Some n) (suffix p))"
    using assms unfolding compressLine_def
    by (simp split: option.splits) blast
  then show ?thesis
    using suffix_refs [OF assms] buildLine_refs by metis
qed

lemma truncateLine_refs:
  assumes "parseLine l = Some p"
  shows "set (all_refs (suffix p)) \<subseteq> set (all_refs (truncateLine k l))"
proof -
  have "truncateLine k l = l \<or> (\<exists>n. truncateLine k l = buildLine (prefix p) (role_of p) (Some n) (suffix p))"
    using assms unfolding truncateLine_def
    by (simp split: option.splits) blast
  then show ?thesis
    using suffix_refs [OF assms] buildLine_refs by metis
qed

lemma carried_map:
  assumes "\<And>l p. parseLine l = Some p \<Longrightarrow> set (all_refs (suffix p)) \<subseteq> set (all_refs (f l))"
  shows "carried x \<subseteq> set (all_refs (join_lines (map f (split_lines x))))"
proof
  fix r
  assume "r \<in> carried x"
  then obtain l p where l: "l \<in> set (split_lines x)" and p: "parseLine l = Some p"
    and r: "r \<in> set (all_refs (suffix p))"
    unfolding carried_def by blast
  have "r \<in> set (all_refs (f l))"
    using assms [OF p] r by blast
  then show "r \<in> set (all_refs (join_lines (map f (split_lines x))))"
    unfolding all_refs_join_lines collectRefs_def using l by auto
qed

lemma list_all_takeWhile: "list_all P (takeWhile P xs)"
  by (induction xs) auto

lemma spaces_bracket_free: "list_all is_space s \<Longrightarrow> 91 \<notin> set s"
  by (induction s) (auto simp add: is_space_def)

lemma starts_with_split: "starts_with w s \<Longrightarrow> \<exists>r. s = w @ r"
  by (induction w s rule: starts_with.induct) auto

lemma placeholder_not_parsed:
  assumes "starts_after_space (js ''- /placeholder:'') l"
  shows "parseLine l = None"
proof -
  let ?t = "dropWhile is_space l"
  obtain r where "?t = js ''- /placeholder:'' @ r"
    using starts_with_split assms unfolding starts_after_space_def by blast
  then have t: "?t = 45 # 32 # 47 # js ''placeholder:'' @ r"
    by simp
  have s: "is_space 32" and w: "\<not> is_space 47" "\<not> is_word 47"
    by (simp_all add: is_space_def is_word_def is_digit_def)
  show ?thesis
    unfolding parseLine_def t using s w by (simp add: Let_def)
qed

lemma noise_bracket_free:
  assumes "isNoise l" "parseLine l = Some p"
  shows "91 \<notin> set (dropWhile is_space l)"
proof -
  let ?t = "dropWhile is_space l"
  have np: "\<not> starts_after_space (js ''- /placeholder:'') l"
  proof
    assume "starts_after_space (js ''- /placeholder:'') l"
    then have "parseLine l = None"
      by (rule placeholder_not_parsed)
    then show False
      using assms(2) by simp
  qed
  consider (a) "starts_after_space (js ''- text:'') l" "list_all is_space (drop 7 ?t)"
    | (b) "starts_after_space (js ''- text: '' @ [34]) l"
          "dropWhile is_space (drop 9 ?t) = [34]"
    using assms(1) np unfolding isNoise_def by blast
  then show ?thesis
  proof cases
    case a
    obtain r where t: "?t = js ''- text:'' @ r"
      using starts_with_split a(1) unfolding starts_after_space_def by blast
    have "drop 7 ?t = r"
      unfolding t by simp
    then have "91 \<notin> set r"
      using a(2) spaces_bracket_free by simp
    then show ?thesis
      unfolding t by simp
  next
    case b
    obtain r where t: "?t = (js ''- text: '' @ [34]) @ r"
      using starts_with_split b(1) unfolding starts_after_space_def by blast
    have d: "drop 9 ?t = r"
      unfolding t by simp
    have dw: "dropWhile is_space r = [34]"
      using b(2) unfolding d .
    have "takeWhile is_space r @ dropWhile is_space r = r"
      by (rule takeWhile_dropWhile_id)
    then have r: "takeWhile is_space r @ [34] = r"
      unfolding dw .
    have "91 \<notin> set (takeWhile is_space r)"
      by (rule spaces_bracket_free) (rule list_all_takeWhile)
    then have "91 \<notin> set (takeWhile is_space r @ [34])"
      by simp
    then have "91 \<notin> set r"
      unfolding r .
    then show ?thesis
      unfolding t by simp
  qed
qed

lemma noise_no_refs:
  assumes "isNoise l" "parseLine l = Some p"
  shows "all_refs (suffix p) = []"
proof -
  have sp: "91 \<notin> set (takeWhile is_space l)"
    by (rule spaces_bracket_free) (rule list_all_takeWhile)
  have "set l = set (takeWhile is_space l) \<union> set (dropWhile is_space l)"
    by (metis set_append takeWhile_dropWhile_id)
  then have "91 \<notin> set l"
    using sp noise_bracket_free [OF assms] by blast
  then have "all_refs (l @ []) = all_refs []"
    by (rule all_refs_no_bracket)
  then have "all_refs l = []"
    by simp
  then show ?thesis
    using suffix_refs [OF assms(2)] by simp
qed

lemma removeNoise_refs: "carried x \<subseteq> set (all_refs (removeNoise x))"
proof
  fix r
  assume "r \<in> carried x"
  then obtain l p where l: "l \<in> set (split_lines x)" and p: "parseLine l = Some p"
    and r: "r \<in> set (all_refs (suffix p))"
    unfolding carried_def by blast
  have "\<not> isNoise l"
    using noise_no_refs [OF _ p] r by auto
  moreover have "r \<in> set (all_refs l)"
    using suffix_refs [OF p] r by blast
  ultimately show "r \<in> set (all_refs (removeNoise x))"
    unfolding removeNoise_def all_refs_join_lines collectRefs_def using l by auto
qed


text \<open>
  Claim C2, for the three reducers that work line by line, and for the references that
  the element lines of the input carry after the role and the name: every such reference
  stands in the output of \<open>removeNoise\<close>, of \<open>semanticCompress\<close> (whatever the case tables
  of the platform are) and of \<open>truncateLongNames\<close>.
\<close>

theorem reducers_keep_carried_refs:
  "carried x \<subseteq> set (all_refs (removeNoise x)) \<and>
   carried x \<subseteq> set (all_refs (semanticCompress lower upper x)) \<and>
   carried x \<subseteq> set (all_refs (truncateLongNames k x))"
proof (intro conjI)
  show "carried x \<subseteq> set (all_refs (removeNoise x))"
    by (rule removeNoise_refs)
  show "carried x \<subseteq> set (all_refs (semanticCompress lower upper x))"
    unfolding semanticCompress_def by (rule carried_map) (rule compressLine_refs)
  show "carried x \<subseteq> set (all_refs (truncateLongNames k x))"
    unfolding truncateLongNames_def by (rule carried_map) (rule truncateLine_refs)
qed

lemma c2_article_lines:
  "split_lines c2_article =
     [js ''- article'',
      js ''  - link '' @ 34 # js ''Read more'' @ 34 # js '' [ref=e1]'',
      js ''  - link '' @ 34 # js ''Read more'' @ 34 # js '' [ref=e2]'']"
  unfolding c2_article_def by (simp only: ev_base string_ev cong: ev_cong)

lemma c2_article_carried: "js ''e2'' \<in> carried c2_article"
proof -
  let ?l = "js ''  - link '' @ 34 # js ''Read more'' @ 34 # js '' [ref=e2]''"
  have "case parseLine ?l of Some p \<Rightarrow> js ''e2'' \<in> set (all_refs (suffix p)) | None \<Rightarrow> False"
    by (simp only: ev_base string_ev line_ev cong: ev_cong)
  then obtain p where "parseLine ?l = Some p" "js ''e2'' \<in> set (all_refs (suffix p))"
    by (cases "parseLine ?l") simp_all
  moreover have "?l \<in> set (split_lines c2_article)"
    unfolding c2_article_lines by simp
  ultimately show ?thesis
    unfolding carried_def by blast
qed

theorem reducers_keep_carried_refs_witness:
  "js ''e2'' \<in> carried c2_article \<and>
   js ''e2'' \<in> set (all_refs (removeNoise c2_article)) \<and>
   js ''e2'' \<in> set (all_refs (semanticCompress noCase noCase c2_article)) \<and>
   js ''e2'' \<in> set (all_refs (truncateLongNames 120 c2_article))"
  using c2_article_carried reducers_keep_carried_refs [of c2_article noCase noCase 120] by blast

text \<open>
  Claim C2 as stated fails for \<open>dedupLinks\<close>: in an article with two links of the same
  name, the second link is dropped with its subtree, and its reference stands nowhere in
  the output.
\<close>

theorem reducers_keep_refs_counterexample:
  "js ''e2'' \<in> set (all_refs c2_article) \<and>
   js ''e2'' \<notin> set (all_refs (dedupLinks c2_article))"
  unfolding c2_article_def
  by (simp only: all_ev le_zero_eq cong: ev_cong)

end
